theory Spec2Isabelle
  imports Complex_Main
begin

section \<open>Errors and arrays\<close>

text \<open>
  Exceptions of the Python program are values. \<open>ValueError\<close>, \<open>IndexError\<close> and \<open>KeyError\<close> are the
  built-in exceptions the modelled code (and the numpy operations it calls) can raise;
  \<open>External\<close> stands for any exception raised inside an external library call (the
  Gaussian filter, the body model, the renderer).
\<close>

datatype error = ValueError | IndexError | KeyError | External string

text \<open>
  A two-dimensional numpy array of shape \<open>(N, D)\<close>: the column count is part of the
  shape even when there is no row. An array is well formed when every row has \<open>D\<close> entries.
\<close>

record 'a ndarray =
  ncols :: nat
  rows :: "'a list list"

definition is_ndarray :: "'a ndarray \<Rightarrow> bool" where
  "is_ndarray a = list_all (\<lambda>r. length r = ncols a) (rows a)"

definition nrows :: "'a ndarray \<Rightarrow> nat" where
  "nrows a = length (rows a)"

text \<open>Python indexing of a sequence: negative indices count from the end, out of range raises.\<close>

definition py_index :: "'a list \<Rightarrow> int \<Rightarrow> error + 'a" where
  "py_index xs i =
     (if 0 \<le> i \<and> i < int (length xs) then Inr (xs ! nat i)
      else if i < 0 \<and> - int (length xs) \<le> i then Inr (xs ! nat (int (length xs) + i))
      else Inl IndexError)"

text \<open>\<open>np.vstack\<close> of two and of three arrays: every array must have the same column count.\<close>

definition vstack2 :: "'a ndarray \<Rightarrow> 'a ndarray \<Rightarrow> error + 'a ndarray" where
  "vstack2 a b =
     (if ncols a = ncols b then Inr \<lparr>ncols = ncols a, rows = rows a @ rows b\<rparr>
      else Inl ValueError)"

definition vstack3 :: "'a ndarray \<Rightarrow> 'a ndarray \<Rightarrow> 'a ndarray \<Rightarrow> error + 'a ndarray" where
  "vstack3 a b c =
     (if ncols a = ncols b \<and> ncols b = ncols c
      then Inr \<lparr>ncols = ncols a, rows = rows a @ rows b @ rows c\<rparr>
      else Inl ValueError)"

section \<open>Sequence Assembler: blend_pose_sequences (streamlit_app.py)\<close>

text \<open>
  The floating-point operations the blend uses are parameters of the model, so that every
  statement below holds for whatever arithmetic the arrays carry (IEEE doubles, singles, or
  exact reals): \<open>f_div\<close> is Python's true division of two integers, \<open>f_int\<close> the
  conversion of an integer literal, \<open>f_sub\<close>, \<open>f_mul\<close> and \<open>f_add\<close> the arithmetic.
\<close>

record 'a arith =
  f_int :: "int \<Rightarrow> 'a"
  f_div :: "int \<Rightarrow> int \<Rightarrow> 'a"
  f_sub :: "'a \<Rightarrow> 'a \<Rightarrow> 'a"
  f_mul :: "'a \<Rightarrow> 'a \<Rightarrow> 'a"
  f_add :: "'a \<Rightarrow> 'a \<Rightarrow> 'a"

definition real_arith :: "real arith" where
  "real_arith = \<lparr>f_int = of_int, f_div = (\<lambda>a b. of_int a / of_int b),
                 f_sub = (-), f_mul = (*), f_add = (+)\<rparr>"

text \<open>Addition of two one-dimensional arrays, with numpy's broadcasting of a length-1 array.\<close>

definition broadcast_add :: "'a arith \<Rightarrow> 'a list \<Rightarrow> 'a list \<Rightarrow> error + 'a list" where
  "broadcast_add ar xs ys =
     (if length xs = length ys then Inr (map2 (f_add ar) xs ys)
      else if length xs = 1 then Inr (map (f_add ar (hd xs)) ys)
      else if length ys = 1 then Inr (map (\<lambda>x. f_add ar x (hd ys)) xs)
      else Inl ValueError)"

text \<open>
  One pass of the loop body:
  \<^verbatim>\<open>alpha = (i + 1) / (n_blend + 1)\<close>,
  \<^verbatim>\<open>current_blend = (1 - alpha) * seq_a[-n_blend + i, :] + alpha * seq_b[i, :]\<close>.
\<close>

definition blend_alpha :: "'a arith \<Rightarrow> int \<Rightarrow> nat \<Rightarrow> 'a" where
  "blend_alpha ar n_blend i = f_div ar (int i + 1) (n_blend + 1)"

definition blend_frame ::
  "'a arith \<Rightarrow> 'a ndarray \<Rightarrow> 'a ndarray \<Rightarrow> int \<Rightarrow> nat \<Rightarrow> error + 'a list" where
  "blend_frame ar seq_a seq_b n_blend i =
     (let alpha = blend_alpha ar n_blend i in
      case py_index (rows seq_a) (- n_blend + int i) of
        Inl e \<Rightarrow> Inl e
      | Inr ra \<Rightarrow>
         (case py_index (rows seq_b) (int i) of
            Inl e \<Rightarrow> Inl e
          | Inr rb \<Rightarrow>
              broadcast_add ar (map (f_mul ar (f_sub ar (f_int ar 1) alpha)) ra)
                               (map (f_mul ar alpha) rb)))"

text \<open>The loop \<^verbatim>\<open>for i in range(n_blend)\<close>, collecting \<^verbatim>\<open>blended_part\<close>.\<close>

fun blend_loop ::
  "'a arith \<Rightarrow> 'a ndarray \<Rightarrow> 'a ndarray \<Rightarrow> int \<Rightarrow> nat list \<Rightarrow> error + 'a list list" where
  "blend_loop ar seq_a seq_b n_blend [] = Inr []"
| "blend_loop ar seq_a seq_b n_blend (i # is) =
     (case blend_frame ar seq_a seq_b n_blend i of
        Inl e \<Rightarrow> Inl e
      | Inr r \<Rightarrow>
         (case blend_loop ar seq_a seq_b n_blend is of
            Inl e \<Rightarrow> Inl e
          | Inr rs \<Rightarrow> Inr (r # rs)))"

text \<open>\<^verbatim>\<open>np.array(blended_part)\<close> of a non-empty list of rows of one length.\<close>

definition np_array :: "'a list list \<Rightarrow> error + 'a ndarray" where
  "np_array rs =
     (if list_all (\<lambda>r. length r = length (hd rs)) rs
      then Inr \<lparr>ncols = length (hd rs), rows = rs\<rparr>
      else Inl ValueError)"

definition blend_pose_sequences ::
  "'a arith \<Rightarrow> 'a ndarray \<Rightarrow> 'a ndarray \<Rightarrow> int \<Rightarrow> error + 'a ndarray" where
  "blend_pose_sequences ar seq_a seq_b n_blend =
     (if n_blend = 0 \<or> int (nrows seq_a) < n_blend \<or> int (nrows seq_b) < n_blend
      then vstack2 seq_a seq_b
      else
        case blend_loop ar seq_a seq_b n_blend [0..<nat n_blend] of
          Inl e \<Rightarrow> Inl e
        | Inr blended_part \<Rightarrow>
            if blended_part = [] then vstack2 seq_a seq_b
            else
              (case np_array blended_part of
                 Inl e \<Rightarrow> Inl e
               | Inr blended_part_np \<Rightarrow>
                   vstack3
                     (seq_a\<lparr>rows := take (nrows seq_a - nat n_blend) (rows seq_a)\<rparr>)
                     blended_part_np
                     (seq_b\<lparr>rows := drop (nat n_blend) (rows seq_b)\<rparr>)))"

text \<open>The frame the blend puts at blend index \<open>i\<close>, in the words of the specification.\<close>

definition lerp_frame :: "'a arith \<Rightarrow> int \<Rightarrow> nat \<Rightarrow> 'a list \<Rightarrow> 'a list \<Rightarrow> 'a list" where
  "lerp_frame ar k i fa fb =
     map2 (\<lambda>a b. f_add ar (f_mul ar (f_sub ar (f_int ar 1) (f_div ar (int i + 1) (k + 1))) a)
                          (f_mul ar (f_div ar (int i + 1) (k + 1)) b)) fa fb"

text \<open>The \<open>k\<close> frames of the blend window.\<close>

definition blended_window :: "'a arith \<Rightarrow> 'a ndarray \<Rightarrow> 'a ndarray \<Rightarrow> int \<Rightarrow> 'a list list" where
  "blended_window ar seq_a seq_b k =
     map (\<lambda>i. lerp_frame ar k i (rows seq_a ! (nrows seq_a - nat k + i)) (rows seq_b ! i))
       [0..<nat k]"

section \<open>Floating-point values with NaN and infinities\<close>

text \<open>
  An array element is a finite number, an infinity or NaN. The Constraint Engine and the
  Evaluator's sanitization only compare, select and replace elements, so no rounding is
  involved and the finite values are modelled by the reals they denote.
\<close>

datatype npfloat = Fin real | PInf | NInf | NaN

fun fl_le :: "npfloat \<Rightarrow> npfloat \<Rightarrow> bool" where
  "fl_le NaN _ = False"
| "fl_le _ NaN = False"
| "fl_le NInf _ = True"
| "fl_le _ PInf = True"
| "fl_le (Fin a) (Fin b) = (a \<le> b)"
| "fl_le (Fin a) NInf = False"
| "fl_le PInf (Fin b) = False"
| "fl_le PInf NInf = False"

definition isnan :: "npfloat \<Rightarrow> bool" where
  "isnan x = (x = NaN)"

definition isfinite :: "npfloat \<Rightarrow> bool" where
  "isfinite x = (case x of Fin _ \<Rightarrow> True | _ \<Rightarrow> False)"

text \<open>\<open>np.maximum\<close>, \<open>np.minimum\<close> and \<open>np.clip\<close> on scalars: NaN propagates.\<close>

definition np_maximum :: "npfloat \<Rightarrow> npfloat \<Rightarrow> npfloat" where
  "np_maximum a b = (if isnan a \<or> isnan b then NaN else if fl_le a b then b else a)"

definition np_minimum :: "npfloat \<Rightarrow> npfloat \<Rightarrow> npfloat" where
  "np_minimum a b = (if isnan a \<or> isnan b then NaN else if fl_le a b then a else b)"

definition np_clip :: "npfloat \<Rightarrow> npfloat \<Rightarrow> npfloat \<Rightarrow> npfloat" where
  "np_clip x lo hi = np_minimum (np_maximum x lo) hi"

text \<open>Membership in a closed interval; NaN is in no interval.\<close>

definition in_interval :: "npfloat \<Rightarrow> npfloat \<times> npfloat \<Rightarrow> bool" where
  "in_interval x iv = (fl_le (fst iv) x \<and> fl_le x (snd iv))"

section \<open>Anatomical Constraint Engine (word_to_smplx.py)\<close>

text \<open>Sequencing of computations that may raise, and a loop over a list that may raise.\<close>

definition bind_err :: "error + 'a \<Rightarrow> ('a \<Rightarrow> error + 'b) \<Rightarrow> error + 'b" where
  "bind_err m f = (case m of Inl e \<Rightarrow> Inl e | Inr x \<Rightarrow> f x)"

fun fold_err :: "('x \<Rightarrow> 's \<Rightarrow> error + 's) \<Rightarrow> 'x list \<Rightarrow> 's \<Rightarrow> error + 's" where
  "fold_err f [] s = Inr s"
| "fold_err f (x # xs) s = (case f x s of Inl e \<Rightarrow> Inl e | Inr s' \<Rightarrow> fold_err f xs s')"

text \<open>
  The two dictionaries of \<open>WordToSMPLX\<close>, as association lists in the order the source
  writes them (the loops iterate in insertion order).
\<close>

definition finger_joint_mapping :: "(string \<times> (string \<times> nat \<times> nat) list) list" where
  "finger_joint_mapping =
     [(''thumb'', [(''cmc'', (0, 3)), (''mcp'', (3, 6)), (''ip'', (6, 9))]),
      (''index'', [(''mcp'', (9, 12)), (''pip'', (12, 15)), (''dip'', (15, 18))]),
      (''middle'', [(''mcp'', (18, 21)), (''pip'', (21, 24)), (''dip'', (24, 27))]),
      (''ring'', [(''mcp'', (27, 30)), (''pip'', (30, 33)), (''dip'', (33, 36))]),
      (''pinky'', [(''mcp'', (36, 39)), (''pip'', (39, 42)), (''dip'', (42, 45))])]"

text \<open>
  The bounds are Python floats: an integer literal is itself, and a decimal literal is the
  double nearest to it, written here as the fraction it is (\<open>1.57\<close> is
  \<open>7070651414971679 / 2 ^ 52\<close>, \<open>np.pi\<close> is \<open>884279719003555 / 2 ^ 48\<close>). No code path
  reads the fallback entry \<open>general_clamp\<close>.
\<close>

definition hand_joint_limits :: "(string \<times> npfloat \<times> npfloat) list" where
  "hand_joint_limits =
     [(''mcp_flexion'',
        (Fin 0, Fin (7070651414971679 / 4503599627370496))),
      (''mcp_abduction'',
        (Fin (- (3152519739159347 / 9007199254740992)), Fin (3152519739159347 / 9007199254740992))),
      (''mcp_twist'',
        (Fin (- (3602879701896397 / 18014398509481984)), Fin (3602879701896397 / 18014398509481984))),
      (''pip_flexion'',
        (Fin 0, Fin (7 / 4))),
      (''pip_side_flex'',
        (Fin (- (3602879701896397 / 36028797018963968)), Fin (3602879701896397 / 36028797018963968))),
      (''pip_twist'',
        (Fin (- (3602879701896397 / 36028797018963968)), Fin (3602879701896397 / 36028797018963968))),
      (''dip_flexion'',
        (Fin 0, Fin (5494391545392005 / 4503599627370496))),
      (''dip_side_flex'',
        (Fin (- (3602879701896397 / 72057594037927936)), Fin (3602879701896397 / 72057594037927936))),
      (''dip_twist'',
        (Fin (- (3602879701896397 / 72057594037927936)), Fin (3602879701896397 / 72057594037927936))),
      (''thumb_cmc_flexion'',
        (Fin (- (1 / 2)), Fin (8106479329266893 / 9007199254740992))),
      (''thumb_cmc_abduction'',
        (Fin 0, Fin (5494391545392005 / 4503599627370496))),
      (''thumb_cmc_twist'',
        (Fin (- (1 / 2)), Fin (1 / 2))),
      (''thumb_mcp_flexion'',
        (Fin (- (3602879701896397 / 18014398509481984)), Fin (8106479329266893 / 9007199254740992))),
      (''thumb_mcp_abduction'',
        (Fin (- (3602879701896397 / 36028797018963968)), Fin (3602879701896397 / 36028797018963968))),
      (''thumb_mcp_twist'',
        (Fin (- (3602879701896397 / 18014398509481984)), Fin (3602879701896397 / 18014398509481984))),
      (''thumb_ip_flexion'',
        (Fin (- (3602879701896397 / 18014398509481984)), Fin (3152519739159347 / 2251799813685248))),
      (''thumb_ip_side_flex'',
        (Fin (- (3602879701896397 / 36028797018963968)), Fin (3602879701896397 / 36028797018963968))),
      (''thumb_ip_twist'',
        (Fin (- (3602879701896397 / 36028797018963968)), Fin (3602879701896397 / 36028797018963968))),
      (''general_clamp'',
        (Fin (- (884279719003555 / 281474976710656)), Fin (884279719003555 / 281474976710656)))]"

text \<open>\<^verbatim>\<open>self.hand_joint_limits[key]\<close>: a missing key raises.\<close>

definition limit_of :: "string \<Rightarrow> error + npfloat \<times> npfloat" where
  "limit_of key = (case map_of hand_joint_limits key of None \<Rightarrow> Inl KeyError | Some iv \<Rightarrow> Inr iv)"

text \<open>
  The length of the slice \<^verbatim>\<open>constrained_pose[start_idx:end_idx]\<close> of an array of
  \<open>n\<close> entries (both bounds are clamped to the array).
\<close>

definition slice_len :: "nat \<Rightarrow> nat \<Rightarrow> nat \<Rightarrow> nat" where
  "slice_len n start_idx end_idx = min end_idx n - min start_idx n"

text \<open>
  A store into an array converts the value to the array's element type. \<open>np.copy\<close> gives
  \<open>constrained_pose\<close> the element type of the caller's frame, so what the engine stores
  depends on it: \<open>cast\<close> is that conversion. On a double-precision frame nothing is
  converted (the clip of a double to double bounds is a double), and \<open>cast\<close> is the identity.
  Whether numpy converts the bounds before the comparison or the result after it, the value
  stored is the same, since the frame's own values are of its element type and the
  conversion keeps the order.
\<close>

text \<open>
  \<^verbatim>\<open>joint_params[d] = np.clip(joint_params[d], *self.hand_joint_limits[key])\<close>, where
  \<open>joint_params\<close> is the slice of \<open>constrained_pose\<close> that starts at \<open>start_idx\<close>. The
  slice is a view, so the write lands in \<open>constrained_pose\<close>; an index beyond the slice raises.
\<close>

definition clip_dof ::
  "(npfloat \<Rightarrow> npfloat) \<Rightarrow> nat \<Rightarrow> nat \<Rightarrow> nat \<Rightarrow> string \<Rightarrow> npfloat list
     \<Rightarrow> error + npfloat list" where
  "clip_dof cast start_idx end_idx d key pose =
     (if d < slice_len (length pose) start_idx end_idx
      then (case limit_of key of
              Inl e \<Rightarrow> Inl e
            | Inr (lo, hi) \<Rightarrow>
                Inr (pose[start_idx + d := cast (np_clip (pose ! (start_idx + d)) lo hi)]))
      else Inl IndexError)"

definition clip_joint ::
  "(npfloat \<Rightarrow> npfloat) \<Rightarrow> nat \<Rightarrow> nat \<Rightarrow> string \<Rightarrow> string \<Rightarrow> string \<Rightarrow> npfloat list
     \<Rightarrow> error + npfloat list" where
  "clip_joint cast start_idx end_idx key0 key1 key2 pose =
     bind_err (clip_dof cast start_idx end_idx 0 key0 pose) (\<lambda>p0.
     bind_err (clip_dof cast start_idx end_idx 1 key1 p0) (\<lambda>p1.
     clip_dof cast start_idx end_idx 2 key2 p1))"

text \<open>
  The body of the inner loop: the chain of tests on \<open>finger_name\<close> and \<open>joint_type\<close>. A
  joint type no branch names is left as it is. The closing statement
  \<^verbatim>\<open>constrained_pose[start_idx:end_idx] = joint_params\<close> copies the view onto itself.
\<close>

definition constrain_joint ::
  "(npfloat \<Rightarrow> npfloat) \<Rightarrow> string \<Rightarrow> string \<times> nat \<times> nat \<Rightarrow> npfloat list
     \<Rightarrow> error + npfloat list" where
  "constrain_joint cast finger_name joint pose =
     (case joint of (joint_type, start_idx, end_idx) \<Rightarrow>
        if finger_name = ''thumb'' then
          (if joint_type = ''cmc'' then
             clip_joint cast start_idx end_idx
               ''thumb_cmc_flexion'' ''thumb_cmc_abduction'' ''thumb_cmc_twist'' pose
           else if joint_type = ''mcp'' then
             clip_joint cast start_idx end_idx
               ''thumb_mcp_flexion'' ''thumb_mcp_abduction'' ''thumb_mcp_twist'' pose
           else if joint_type = ''ip'' then
             clip_joint cast start_idx end_idx
               ''thumb_ip_flexion'' ''thumb_ip_side_flex'' ''thumb_ip_twist'' pose
           else Inr pose)
        else
          (if joint_type = ''mcp'' then
             clip_joint cast start_idx end_idx ''mcp_flexion'' ''mcp_abduction'' ''mcp_twist'' pose
           else if joint_type = ''pip'' then
             clip_joint cast start_idx end_idx ''pip_flexion'' ''pip_side_flex'' ''pip_twist'' pose
           else if joint_type = ''dip'' then
             clip_joint cast start_idx end_idx ''dip_flexion'' ''dip_side_flex'' ''dip_twist'' pose
           else Inr pose))"

text \<open>The engine on a frame whose element type converts with \<open>cast\<close>.\<close>

definition apply_anatomical_constraints_to_frame_as ::
  "(npfloat \<Rightarrow> npfloat) \<Rightarrow> npfloat list \<Rightarrow> error + npfloat list" where
  "apply_anatomical_constraints_to_frame_as cast hand_pose_frame_np =
     fold_err (\<lambda>(finger_name, joints). fold_err (constrain_joint cast finger_name) joints)
       finger_joint_mapping hand_pose_frame_np"

text \<open>
  The conversion to double precision of a value that is a double, and the engine on a
  double-precision frame.
\<close>

definition float64_cast :: "npfloat \<Rightarrow> npfloat" where
  "float64_cast x = x"

definition apply_anatomical_constraints_to_frame :: "npfloat list \<Rightarrow> error + npfloat list" where
  "apply_anatomical_constraints_to_frame hand_pose_frame_np =
     apply_anatomical_constraints_to_frame_as float64_cast hand_pose_frame_np"

text \<open>
  What every conversion to an element type does: it keeps the order of the values, and it
  keeps NaN (an element type with a NaN is a floating-point type).
\<close>

definition monotone_cast :: "(npfloat \<Rightarrow> npfloat) \<Rightarrow> bool" where
  "monotone_cast cast = ((\<forall>a b. fl_le a b \<longrightarrow> fl_le (cast a) (cast b)) \<and> cast NaN = NaN)"

text \<open>
  The conversion to single precision: round to the nearest value with 24 significant bits,
  ties to even, with the subnormal spacing \<open>2 ^ -149\<close> below \<open>2 ^ -126\<close> and overflow to
  infinity from \<open>2 ^ 128\<close>. \<open>binade n m 0\<close> is the exponent of \<open>m > 0\<close>, searched in \<open>n\<close>
  steps; 200 steps decide every case, since beyond the exponents -126 and 128 the result no
  longer depends on the exponent.
\<close>

definition pow2 :: "int \<Rightarrow> real" where
  "pow2 k = (if 0 \<le> k then 2 ^ nat k else 1 / 2 ^ nat (- k))"

definition round_half_even :: "real \<Rightarrow> int" where
  "round_half_even r =
     (let f = \<lfloor>r\<rfloor>; d = r - of_int f in
      if d < 1 / 2 then f else if 1 / 2 < d then f + 1 else if even f then f else f + 1)"

fun binade :: "nat \<Rightarrow> real \<Rightarrow> int \<Rightarrow> int" where
  "binade 0 m e = e"
| "binade (Suc n) m e =
     (if 2 \<le> m then binade n (m / 2) (e + 1)
      else if m < 1 then binade n (m * 2) (e - 1)
      else e)"

definition float32_exponent :: "real \<Rightarrow> int" where
  "float32_exponent v = max (binade 200 \<bar>v\<bar> 0) (- 126)"

definition float32_nearest :: "real \<Rightarrow> real" where
  "float32_nearest v =
     (let q = pow2 (float32_exponent v - 23) in of_int (round_half_even (v / q)) * q)"

definition float32_of_real :: "real \<Rightarrow> npfloat" where
  "float32_of_real v =
     (if v = 0 then Fin 0
      else
        let r = float32_nearest v
        in if pow2 128 \<le> r then PInf else if r \<le> - pow2 128 then NInf else Fin r)"

definition float32_cast :: "npfloat \<Rightarrow> npfloat" where
  "float32_cast x = (case x of Fin v \<Rightarrow> float32_of_real v | _ \<Rightarrow> x)"

text \<open>
  The interval the joint-limit table declares for a (finger, joint type, degree of freedom)
  triple, following the table's naming: thumb joints have entries of their own, the other
  four fingers share one entry per joint type; degree of freedom 0 is flexion, 1 is abduction
  (for \<open>cmc\<close> and \<open>mcp\<close> joints) or side flexion, 2 is twist.
\<close>

definition declared_key :: "string \<Rightarrow> string \<Rightarrow> nat \<Rightarrow> string" where
  "declared_key finger_name joint_type d =
     (if finger_name = ''thumb'' then ''thumb_'' else []) @ joint_type @
     (if d = 0 then ''_flexion''
      else if d = 1 then
        (if joint_type = ''cmc'' \<or> joint_type = ''mcp'' then ''_abduction'' else ''_side_flex'')
      else ''_twist'')"

definition declared_interval :: "string \<Rightarrow> string \<Rightarrow> nat \<Rightarrow> (npfloat \<times> npfloat) option" where
  "declared_interval finger_name joint_type d =
     map_of hand_joint_limits (declared_key finger_name joint_type d)"

text \<open>
  \<open>clip_by cast key\<close> clips a value to the table's interval for \<open>key\<close> and converts the
  result, and \<open>dof_keys\<close> lists, in index order, the table key of each parameter the joint
  layout covers.
\<close>

definition clip_by :: "(npfloat \<Rightarrow> npfloat) \<Rightarrow> string \<Rightarrow> npfloat \<Rightarrow> npfloat" where
  "clip_by cast key x =
     (case map_of hand_joint_limits key of
        None \<Rightarrow> x
      | Some (lo, hi) \<Rightarrow> cast (np_clip x lo hi))"

definition dof_keys :: "string list" where
  "dof_keys =
     concat (map (\<lambda>(finger_name, joints).
       concat (map (\<lambda>(joint_type, start_idx, end_idx).
         map (declared_key finger_name joint_type) [0, 1, 2]) joints)) finger_joint_mapping)"

subsection \<open>The same function on an explicit store\<close>

text \<open>
  numpy arrays are objects: \<open>np.copy\<close> allocates a buffer, a slice is a view on the buffer of
  the array it is taken from, and an indexed assignment writes into that buffer. The store
  is the list of all buffers (an address is a position in it); a one-dimensional array is a
  window on one buffer. The frame is a double-precision array here: a store keeps the value.
\<close>

type_synonym heap = "npfloat list list"

record view =
  base :: nat
  offset :: nat
  len :: nat

definition valid_view :: "heap \<Rightarrow> view \<Rightarrow> bool" where
  "valid_view h v = (base v < length h \<and> offset v + len v \<le> length (h ! base v))"

definition read_view :: "heap \<Rightarrow> view \<Rightarrow> npfloat list" where
  "read_view h v = take (len v) (drop (offset v) (h ! base v))"

definition np_copy :: "heap \<Rightarrow> view \<Rightarrow> heap \<times> view" where
  "np_copy h v = (h @ [read_view h v], \<lparr>base = length h, offset = 0, len = len v\<rparr>)"

definition slice_view :: "view \<Rightarrow> nat \<Rightarrow> nat \<Rightarrow> view" where
  "slice_view v start_idx end_idx =
     \<lparr>base = base v, offset = offset v + min start_idx (len v),
      len = min end_idx (len v) - min start_idx (len v)\<rparr>"

definition get_item :: "heap \<Rightarrow> view \<Rightarrow> nat \<Rightarrow> error + npfloat" where
  "get_item h v d = (if d < len v then Inr (h ! base v ! (offset v + d)) else Inl IndexError)"

definition set_item :: "heap \<Rightarrow> view \<Rightarrow> nat \<Rightarrow> npfloat \<Rightarrow> error + heap" where
  "set_item h v d x =
     (if d < len v then Inr (h[base v := (h ! base v)[offset v + d := x]]) else Inl IndexError)"

text \<open>\<^verbatim>\<open>dst[...] = src\<close> for two one-dimensional arrays (a length-1 source is broadcast).\<close>

definition assign_view :: "heap \<Rightarrow> view \<Rightarrow> view \<Rightarrow> error + heap" where
  "assign_view h dst src =
     (let vals = read_view h src; buf = h ! base dst in
      if length vals = len dst
      then Inr (h[base dst := take (offset dst) buf @ vals @ drop (offset dst + len dst) buf])
      else if length vals = 1
      then Inr (h[base dst := take (offset dst) buf @ replicate (len dst) (hd vals)
                               @ drop (offset dst + len dst) buf])
      else Inl ValueError)"

definition clip_dof_st :: "view \<Rightarrow> nat \<Rightarrow> string \<Rightarrow> heap \<Rightarrow> error + heap" where
  "clip_dof_st joint_params d key h =
     bind_err (get_item h joint_params d) (\<lambda>x.
     bind_err (limit_of key) (\<lambda>(lo, hi).
     set_item h joint_params d (np_clip x lo hi)))"

definition clip_joint_st :: "view \<Rightarrow> string \<Rightarrow> string \<Rightarrow> string \<Rightarrow> heap \<Rightarrow> error + heap" where
  "clip_joint_st joint_params key0 key1 key2 h =
     bind_err (clip_dof_st joint_params 0 key0 h) (\<lambda>h0.
     bind_err (clip_dof_st joint_params 1 key1 h0) (\<lambda>h1.
     clip_dof_st joint_params 2 key2 h1))"

definition constrain_joint_st ::
  "view \<Rightarrow> string \<Rightarrow> string \<times> nat \<times> nat \<Rightarrow> heap \<Rightarrow> error + heap" where
  "constrain_joint_st constrained_pose finger_name joint h =
     (case joint of (joint_type, start_idx, end_idx) \<Rightarrow>
        let joint_params = slice_view constrained_pose start_idx end_idx in
        bind_err
          (if finger_name = ''thumb'' then
             (if joint_type = ''cmc'' then
                clip_joint_st joint_params
                  ''thumb_cmc_flexion'' ''thumb_cmc_abduction'' ''thumb_cmc_twist'' h
              else if joint_type = ''mcp'' then
                clip_joint_st joint_params
                  ''thumb_mcp_flexion'' ''thumb_mcp_abduction'' ''thumb_mcp_twist'' h
              else if joint_type = ''ip'' then
                clip_joint_st joint_params
                  ''thumb_ip_flexion'' ''thumb_ip_side_flex'' ''thumb_ip_twist'' h
              else Inr h)
           else
             (if joint_type = ''mcp'' then
                clip_joint_st joint_params ''mcp_flexion'' ''mcp_abduction'' ''mcp_twist'' h
              else if joint_type = ''pip'' then
                clip_joint_st joint_params ''pip_flexion'' ''pip_side_flex'' ''pip_twist'' h
              else if joint_type = ''dip'' then
                clip_joint_st joint_params ''dip_flexion'' ''dip_side_flex'' ''dip_twist'' h
              else Inr h))
          (\<lambda>h'. assign_view h' (slice_view constrained_pose start_idx end_idx) joint_params))"

definition apply_anatomical_constraints_to_frame_st :: "heap \<Rightarrow> view \<Rightarrow> error + heap \<times> view" where
  "apply_anatomical_constraints_to_frame_st h hand_pose_frame_np =
     (case np_copy h hand_pose_frame_np of (h0, constrained_pose) \<Rightarrow>
        bind_err
          (fold_err (\<lambda>(finger_name, joints).
             fold_err (constrain_joint_st constrained_pose finger_name) joints)
             finger_joint_mapping h0)
          (\<lambda>h'. Inr (h', constrained_pose)))"

text \<open>The store that holds the buffers of \<open>h\<close> and, last, the private copy.\<close>

definition lift_buf :: "heap \<Rightarrow> error + npfloat list \<Rightarrow> error + heap" where
  "lift_buf h r = (case r of Inl e \<Rightarrow> Inl e | Inr buf \<Rightarrow> Inr (h @ [buf]))"

section \<open>Temporal Smoother and hand pose processing (word_to_smplx.py)\<close>

text \<open>
  \<open>scipy.ndimage.gaussian_filter1d\<close> is a parameter \<open>gf\<close> of the model: it takes the width
  \<open>sigma\<close> and one channel and returns a one-dimensional array, or raises. Its documented
  contract is that for a positive \<open>sigma\<close> the result has the shape of the input.
\<close>

definition filter_contract :: "(real \<Rightarrow> 'a list \<Rightarrow> error + 'a list) \<Rightarrow> bool" where
  "filter_contract gf =
     (\<forall>sigma col. 0 < sigma \<longrightarrow> (\<exists>r. gf sigma col = Inr r \<and> length r = length col))"

definition column :: "'a ndarray \<Rightarrow> nat \<Rightarrow> 'a list" where
  "column a i = map (\<lambda>r. r ! i) (rows a)"

text \<open>\<^verbatim>\<open>a[:, i] = c\<close> and \<^verbatim>\<open>a[i, :] = r\<close>: the shape of the array never changes.\<close>

definition assign_column :: "'a ndarray \<Rightarrow> nat \<Rightarrow> 'a list \<Rightarrow> error + 'a ndarray" where
  "assign_column a i c =
     (if length c = nrows a then Inr (a\<lparr>rows := map2 (\<lambda>r x. r[i := x]) (rows a) c\<rparr>)
      else if length c = 1 then Inr (a\<lparr>rows := map (\<lambda>r. r[i := hd c]) (rows a)\<rparr>)
      else Inl ValueError)"

definition assign_row :: "'a ndarray \<Rightarrow> nat \<Rightarrow> 'a list \<Rightarrow> error + 'a ndarray" where
  "assign_row a i r =
     (if length r = ncols a then Inr (a\<lparr>rows := (rows a)[i := r]\<rparr>)
      else if length r = 1 then Inr (a\<lparr>rows := (rows a)[i := replicate (ncols a) (hd r)]\<rparr>)
      else Inl ValueError)"

text \<open>Step 1 of \<open>_process_hand_pose_data\<close>: the smoothing of a copy of the input.\<close>

definition smooth_step ::
  "(real \<Rightarrow> 'a list \<Rightarrow> error + 'a list) \<Rightarrow> real \<Rightarrow> 'a ndarray \<Rightarrow> error + 'a ndarray" where
  "smooth_step gf sigma hand_pose_np =
     (if nrows hand_pose_np > 1
      then fold_err (\<lambda>i smoothed. bind_err (gf sigma (column smoothed i)) (assign_column smoothed i))
             [0..<ncols hand_pose_np] hand_pose_np
      else Inr hand_pose_np)"

definition zeros_like :: "npfloat ndarray \<Rightarrow> npfloat ndarray" where
  "zeros_like a = a\<lparr>rows := map (\<lambda>r. replicate (ncols a) (Fin 0)) (rows a)\<rparr>"

text \<open>Step 2: the constraints, frame by frame, written into a zero array of the same shape.\<close>

definition constrain_step :: "npfloat ndarray \<Rightarrow> error + npfloat ndarray" where
  "constrain_step smoothed =
     fold_err (\<lambda>i constrained.
         bind_err (apply_anatomical_constraints_to_frame (rows smoothed ! i))
           (assign_row constrained i))
       [0..<nrows smoothed] (zeros_like smoothed)"

definition process_hand_pose_data ::
  "(real \<Rightarrow> npfloat list \<Rightarrow> error + npfloat list) \<Rightarrow> real \<Rightarrow> npfloat ndarray
     \<Rightarrow> error + npfloat ndarray" where
  "process_hand_pose_data gf sigma hand_pose_np =
     bind_err (smooth_step gf sigma hand_pose_np) constrain_step"

text \<open>
  A filter to run the model on: every sample is replaced by its predecessor, the first
  sample repeated at the edge. It stands for the Gaussian only where a concrete,
  shape-preserving filter is needed.
\<close>

definition shift_filter :: "real \<Rightarrow> 'a list \<Rightarrow> error + 'a list" where
  "shift_filter sigma col = (if col = [] then Inr [] else Inr (hd col # butlast col))"

section \<open>Body Model Evaluator / Renderer: render_animation (word_to_smplx.py)\<close>

text \<open>
  What \<^verbatim>\<open>pose_data.get('smplx', None)\<close> finds: nothing, a value that fails the
  \<open>isinstance\<close> test, or an array whose elements are arrays (the frames).
\<close>

datatype smplx_field = Missing | Unexpected | FrameArray "npfloat list list"

text \<open>
  The arguments of one call of the body model; \<open>betas\<close> is always \<open>torch.zeros((1, 10))\<close>
  and \<open>return_verts\<close> always \<open>True\<close>.
\<close>

record model_args =
  body_pose :: "npfloat list"
  right_hand_pose :: "npfloat list"
  left_hand_pose :: "npfloat list"
  global_orient :: "npfloat list"

text \<open>
  The external calls the function makes are logged in order, so that how often and with
  which arguments the body model is called is part of the result.
\<close>

datatype ('o, 'img) event =
  ModelCall model_args | RenderCall 'o | SaveCall string "'img list" nat

datatype ('o, 'img) outcome = Video "'img list" | ModelOutput 'o

text \<open>
  The collaborators: the Gaussian filter, the body model (it may raise), the renderer
  (\<open>None\<close> when \<open>pyrender\<close> or \<open>trimesh\<close> is missing; it may raise), the video writer
  \<open>imageio.mimsave\<close>, and the single-precision addition of \<open>np.pi\<close>.
\<close>

record ('o, 'img) env =
  gaussian_filter1d :: "real \<Rightarrow> npfloat list \<Rightarrow> error + npfloat list"
  smplx_model :: "model_args \<Rightarrow> error + 'o"
  renderer :: "('o \<Rightarrow> error + 'img) option"
  mimsave :: "string \<Rightarrow> 'img list \<Rightarrow> nat \<Rightarrow> error + unit"
  add_pi :: "npfloat \<Rightarrow> npfloat"

text \<open>\<open>np.stack\<close> of the frames: they must all have one shape.\<close>

definition np_stack :: "'a list list \<Rightarrow> error + 'a ndarray" where
  "np_stack frames =
     (if frames = [] then Inl ValueError
      else if list_all (\<lambda>r. length r = length (hd frames)) frames
      then Inr \<lparr>ncols = length (hd frames), rows = frames\<rparr>
      else Inl ValueError)"

text \<open>The column slice \<^verbatim>\<open>a[:, lo:hi]\<close>.\<close>

definition col_slice :: "'a ndarray \<Rightarrow> nat \<Rightarrow> nat \<Rightarrow> 'a ndarray" where
  "col_slice a lo hi =
     \<lparr>ncols = min hi (ncols a) - min lo (ncols a),
      rows = map (\<lambda>r. take (hi - lo) (drop lo r)) (rows a)\<rparr>"

text \<open>
  \<open>torch.nan_to_num\<close> with its defaults: NaN becomes zero, an infinity the largest finite
  single-precision value of its sign.
\<close>

definition float32_max :: real where
  "float32_max = 340282346638528859811704183484516925440"

definition nan_to_num :: "npfloat \<Rightarrow> npfloat" where
  "nan_to_num x =
     (case x of NaN \<Rightarrow> Fin 0 | PInf \<Rightarrow> Fin float32_max | NInf \<Rightarrow> Fin (- float32_max)
      | Fin v \<Rightarrow> Fin v)"

text \<open>Lines 221 to 225: the NaN test on both hands and the replacement.\<close>

definition sanitize_hands :: "npfloat list \<Rightarrow> npfloat list \<Rightarrow> npfloat list \<times> npfloat list" where
  "sanitize_hands lhp rhp =
     (if list_ex isnan lhp \<or> list_ex isnan rhp
      then (map nan_to_num lhp, map nan_to_num rhp)
      else (lhp, rhp))"

text \<open>What the specification asks of the sanitization: a non-finite entry becomes zero.\<close>

definition zero_nonfinite :: "npfloat \<Rightarrow> npfloat" where
  "zero_nonfinite x = (if isfinite x then x else Fin 0)"

text \<open>The arguments of the retry: both hands zero, orientation and body pose kept.\<close>

definition neutral_hands :: "model_args \<Rightarrow> model_args" where
  "neutral_hands a =
     a\<lparr>right_hand_pose := map (\<lambda>_. Fin 0) (right_hand_pose a),
       left_hand_pose := map (\<lambda>_. Fin 0) (left_hand_pose a)\<rparr>"

text \<open>
  Lines 226 to 244: the call of the body model and the handler of its exception. Whatever
  the body model raises is an \<open>Exception\<close>, which the handler catches; the handler's
  second call is not guarded. The two \<open>print\<close> statements are not modelled.
\<close>

definition evaluate_frame ::
  "('o, 'img) env \<Rightarrow> model_args \<Rightarrow> ('o, 'img) event list \<times> (error + 'o)" where
  "evaluate_frame E a =
     (case smplx_model E a of
        Inr output \<Rightarrow> ([ModelCall a], Inr output)
      | Inl e \<Rightarrow> ([ModelCall a, ModelCall (neutral_hands a)], smplx_model E (neutral_hands a)))"

text \<open>
  Lines 216 to 244 for one frame, given as its four rows (orientation, body, left hand,
  right hand): \<^verbatim>\<open>go[0, 0] += np.pi\<close> raises when the orientation has no entry.
\<close>

definition frame_step ::
  "('o, 'img) env \<Rightarrow> npfloat list \<times> npfloat list \<times> npfloat list \<times> npfloat list
     \<Rightarrow> ('o, 'img) event list \<times> (error + 'o)" where
  "frame_step E fr =
     (case fr of (go_row, bp, lhp0, rhp0) \<Rightarrow>
        (case go_row of
           [] \<Rightarrow> ([], Inl IndexError)
         | g # gs \<Rightarrow>
             (case sanitize_hands lhp0 rhp0 of (lhp, rhp) \<Rightarrow>
                evaluate_frame E
                  \<lparr>body_pose = bp, right_hand_pose = rhp, left_hand_pose = lhp,
                   global_orient = add_pi E g # gs\<rparr>)))"

text \<open>
  The loop over the frames, with the list of images and the log so far. After the last
  frame the images are saved when \<open>save_path\<close> is given and not empty, and returned.
\<close>

fun frame_loop ::
  "('o, 'img) env \<Rightarrow> string option \<Rightarrow> nat
     \<Rightarrow> (npfloat list \<times> npfloat list \<times> npfloat list \<times> npfloat list) list
     \<Rightarrow> 'img list \<Rightarrow> ('o, 'img) event list
     \<Rightarrow> ('o, 'img) event list \<times> (error + ('o, 'img) outcome)" where
  "frame_loop E save_path fps [] frames trace =
     (case save_path of
        None \<Rightarrow> (trace, Inr (Video frames))
      | Some path \<Rightarrow>
          if path = [] then (trace, Inr (Video frames))
          else (case mimsave E path frames fps of
                  Inl e \<Rightarrow> (trace @ [SaveCall path frames fps], Inl e)
                | Inr _ \<Rightarrow> (trace @ [SaveCall path frames fps], Inr (Video frames))))"
| "frame_loop E save_path fps (fr # rest) frames trace =
     (case frame_step E fr of
        (evs, Inl e) \<Rightarrow> (trace @ evs, Inl e)
      | (evs, Inr output) \<Rightarrow>
          (case renderer E of
             None \<Rightarrow> (trace @ evs, Inr (ModelOutput output))
           | Some render \<Rightarrow>
               (case render output of
                  Inl e \<Rightarrow> (trace @ evs @ [RenderCall output], Inl e)
                | Inr color \<Rightarrow>
                    frame_loop E save_path fps rest (frames @ [color])
                      (trace @ evs @ [RenderCall output]))))"

text \<open>
  The part of \<open>render_animation\<close> before the loop: the test of the \<open>smplx\<close> field, the
  stacking, the four column ranges, and the processing of both hands with the default
  \<open>sigma = 0.3\<close>. The result is the list of the per-frame rows. The conversions to
  single-precision tensors keep NaN, and keep the finite values finite; they are not
  modelled.
\<close>

definition prepare_frames ::
  "('o, 'img) env \<Rightarrow> smplx_field
     \<Rightarrow> error + (npfloat list \<times> npfloat list \<times> npfloat list \<times> npfloat list) list" where
  "prepare_frames E smplx_data =
     (case smplx_data of
        Missing \<Rightarrow> Inl ValueError
      | Unexpected \<Rightarrow> Inl ValueError
      | FrameArray frames \<Rightarrow>
          if frames = [] then Inl IndexError
          else
            bind_err (np_stack frames) (\<lambda>smplx_params.
            bind_err (process_hand_pose_data (gaussian_filter1d E) (3 / 10)
                        (col_slice smplx_params 66 111)) (\<lambda>left_hand.
            bind_err (process_hand_pose_data (gaussian_filter1d E) (3 / 10)
                        (col_slice smplx_params 111 156)) (\<lambda>right_hand.
            Inr (zip (rows (col_slice smplx_params 0 3))
                  (zip (rows (col_slice smplx_params 3 66))
                    (zip (rows left_hand) (rows right_hand))))))))"

definition render_animation ::
  "('o, 'img) env \<Rightarrow> smplx_field \<Rightarrow> string option \<Rightarrow> nat
     \<Rightarrow> ('o, 'img) event list \<times> (error + ('o, 'img) outcome)" where
  "render_animation E smplx_data save_path fps =
     (case prepare_frames E smplx_data of
        Inl e \<Rightarrow> ([], Inl e)
      | Inr frs \<Rightarrow> frame_loop E save_path fps frs [] [])"

text \<open>
  Collaborators to run the model on. The stand-in for the body model raises unless the left
  hand is neutral and returns the orientation it was given; the other one always raises. The
  renderer's image is the number of values it was given, and \<open>np.pi\<close> is added exactly.
\<close>

definition neutral_only_model :: "model_args \<Rightarrow> error + npfloat list" where
  "neutral_only_model a =
     (if list_all (\<lambda>x. x = Fin 0) (left_hand_pose a) then Inr (global_orient a)
      else Inl (External ''smplx''))"

definition failing_model :: "model_args \<Rightarrow> error + npfloat list" where
  "failing_model a = Inl (External ''smplx'')"

definition add_pi_exact :: "npfloat \<Rightarrow> npfloat" where
  "add_pi_exact x =
     (case x of Fin v \<Rightarrow> Fin (v + 884279719003555 / 281474976710656) | _ \<Rightarrow> x)"

definition example_env ::
  "(model_args \<Rightarrow> error + npfloat list) \<Rightarrow> (npfloat list \<Rightarrow> error + nat) option
     \<Rightarrow> (npfloat list, nat) env" where
  "example_env model render =
     \<lparr>gaussian_filter1d = shift_filter, smplx_model = model, renderer = render,
      mimsave = (\<lambda>path frames fps. Inr ()), add_pi = add_pi_exact\<rparr>"

section \<open>Transcript filter: transcript_to_words (app.py)\<close>

text \<open>
  Strings are lists of characters; the three string methods are modelled on ASCII
  (characters beyond ASCII are neither letters with a lower case, nor blank, nor
  punctuation here).
\<close>

definition lower_char :: "char \<Rightarrow> char" where
  "lower_char c =
     (let n = (of_char c :: nat) in if 65 \<le> n \<and> n \<le> 90 then char_of (n + 32) else c)"

definition str_lower :: "string \<Rightarrow> string" where
  "str_lower s = map lower_char s"

definition is_space :: "char \<Rightarrow> bool" where
  "is_space c = (let n = (of_char c :: nat) in (9 \<le> n \<and> n \<le> 13) \<or> (28 \<le> n \<and> n \<le> 32))"

text \<open>\<open>str.split()\<close>: the maximal runs of characters that are not blank.\<close>

fun split_from :: "string \<Rightarrow> string \<Rightarrow> string list" where
  "split_from cur [] = (if cur = [] then [] else [cur])"
| "split_from cur (c # cs) =
     (if is_space c then (if cur = [] then split_from [] cs else cur # split_from [] cs)
      else split_from (cur @ [c]) cs)"

definition str_split :: "string \<Rightarrow> string list" where
  "str_split s = split_from [] s"

text \<open>\<open>string.punctuation\<close> is the 32 ASCII characters that are neither letters nor digits.\<close>

definition is_punctuation :: "char \<Rightarrow> bool" where
  "is_punctuation c =
     (let n = (of_char c :: nat) in
      (33 \<le> n \<and> n \<le> 47) \<or> (58 \<le> n \<and> n \<le> 64) \<or> (91 \<le> n \<and> n \<le> 96)
      \<or> (123 \<le> n \<and> n \<le> 126))"

definition strip_punctuation :: "string \<Rightarrow> string" where
  "strip_punctuation w = rev (dropWhile is_punctuation (rev (dropWhile is_punctuation w)))"

text \<open>
  \<^verbatim>\<open>word_to_pkl = {v.lower(): k for k, v in gloss_map.items()}\<close>, as an
  association list read with \<open>map_of\<close>: a later item of \<open>gloss_map\<close> overwrites an
  earlier one with the same lowered word, so the items are listed last first.
  \<open>dataset_words\<close> is the set of its keys.
\<close>

definition word_to_pkl :: "(string \<times> string) list \<Rightarrow> (string \<times> string) list" where
  "word_to_pkl gloss_map = rev (map (\<lambda>(k, v). (str_lower v, k)) gloss_map)"

definition dataset_words :: "(string \<times> string) list \<Rightarrow> string set" where
  "dataset_words gloss_map = set (map fst (word_to_pkl gloss_map))"

text \<open>A transcript entry is a dictionary with a \<open>text\<close> field (and timing fields).\<close>

record entry =
  text_of :: string

definition clean_tokens :: "entry \<Rightarrow> string list" where
  "clean_tokens e = map strip_punctuation (str_split (str_lower (text_of e)))"

definition add_word :: "(string \<times> string) list \<Rightarrow> string list \<Rightarrow> string \<Rightarrow> string list" where
  "add_word gloss_map words w_clean =
     (if w_clean \<in> dataset_words gloss_map \<and> w_clean \<notin> set words
      then words @ [w_clean] else words)"

definition transcript_to_words :: "(string \<times> string) list \<Rightarrow> entry list \<Rightarrow> string list" where
  "transcript_to_words gloss_map transcript =
     foldl (\<lambda>words e. foldl (add_word gloss_map) words (clean_tokens e)) [] transcript"

text \<open>
  The words of a list in the order of their first occurrence, each once (\<open>remdups\<close> keeps
  the last occurrence of each element, hence the two reversals).
\<close>

definition first_occurrences :: "'a list \<Rightarrow> 'a list" where
  "first_occurrences xs = rev (remdups (rev xs))"

text \<open>The lookup \<^verbatim>\<open>word_to_pkl[word]\<close> of the endpoint's loop: a missing word raises.\<close>

definition lookup_word :: "(string \<times> string) list \<Rightarrow> string \<Rightarrow> error + string" where
  "lookup_word gloss_map word =
     (case map_of (word_to_pkl gloss_map) word of None \<Rightarrow> Inl KeyError | Some f \<Rightarrow> Inr f)"

section \<open>Verification: the Sequence Assembler's blend\<close>

lemma is_ndarray_nth: "is_ndarray a \<Longrightarrow> i < length (rows a) \<Longrightarrow> length (rows a ! i) = ncols a"
  by (simp add: is_ndarray_def list_all_length)

lemma blend_frame_ok:
  assumes "is_ndarray seq_a" "is_ndarray seq_b" "ncols seq_a = ncols seq_b"
    and "int i < k" "k \<le> int (nrows seq_a)" "k \<le> int (nrows seq_b)"
  shows "blend_frame ar seq_a seq_b k i =
           Inr (lerp_frame ar k i (rows seq_a ! (nrows seq_a - nat k + i)) (rows seq_b ! i))"
proof -
  have ia: "nrows seq_a - nat k + i < length (rows seq_a)"
    using assms by (simp add: nrows_def)
  have ib: "i < length (rows seq_b)"
    using assms by (simp add: nrows_def)
  have pa: "py_index (rows seq_a) (- k + int i) = Inr (rows seq_a ! (nrows seq_a - nat k + i))"
  proof -
    have "nat (int (length (rows seq_a)) + (- k + int i)) = nrows seq_a - nat k + i"
      using assms by (simp add: nrows_def)
    then show ?thesis
      using assms by (simp add: py_index_def nrows_def)
  qed
  have pa': "py_index (rows seq_a) (int i - k) = Inr (rows seq_a ! (nrows seq_a - nat k + i))"
    using pa by (simp add: add.commute)
  have pb: "py_index (rows seq_b) (int i) = Inr (rows seq_b ! i)"
    using ib by (simp add: py_index_def)
  have len: "length (rows seq_a ! (nrows seq_a - nat k + i)) = length (rows seq_b ! i)"
    using is_ndarray_nth[OF assms(1) ia] is_ndarray_nth[OF assms(2) ib] assms(3) by simp
  show ?thesis
    using len
    by (simp add: blend_frame_def Let_def pa pa' pb broadcast_add_def lerp_frame_def blend_alpha_def
        zip_map_map split_def)
qed

lemma blend_loop_ok:
  assumes "is_ndarray seq_a" "is_ndarray seq_b" "ncols seq_a = ncols seq_b"
    and "k \<le> int (nrows seq_a)" "k \<le> int (nrows seq_b)"
    and "\<forall>i\<in>set js. int i < k"
  shows "blend_loop ar seq_a seq_b k js =
           Inr (map (\<lambda>i. lerp_frame ar k i (rows seq_a ! (nrows seq_a - nat k + i)) (rows seq_b ! i)) js)"
  using assms(6)
proof (induction js)
  case Nil
  then show ?case by simp
next
  case (Cons j js)
  then show ?case
    using blend_frame_ok[OF assms(1-3) _ assms(4,5), of j ar] by simp
qed

lemma length_lerp_frame: "length (lerp_frame ar k i fa fb) = min (length fa) (length fb)"
  by (simp add: lerp_frame_def)

lemma blended_window_widths:
  assumes wa: "is_ndarray seq_a" and wb: "is_ndarray seq_b" and nc: "ncols seq_a = ncols seq_b"
    and k: "0 < k" "k \<le> int (nrows seq_a)" "k \<le> int (nrows seq_b)"
  shows "\<forall>r\<in>set (blended_window ar seq_a seq_b k). length r = ncols seq_a"
proof
  fix r assume "r \<in> set (blended_window ar seq_a seq_b k)"
  then obtain i where i: "i < nat k"
    and r: "r = lerp_frame ar k i (rows seq_a ! (nrows seq_a - nat k + i)) (rows seq_b ! i)"
    by (auto simp: blended_window_def)
  have ia: "nrows seq_a - nat k + i < length (rows seq_a)"
    using i k by (simp add: nrows_def)
  have ib: "i < length (rows seq_b)"
    using i k by (simp add: nrows_def)
  show "length r = ncols seq_a"
    using is_ndarray_nth[OF wa ia] is_ndarray_nth[OF wb ib] nc
    by (simp add: r length_lerp_frame)
qed

lemma blend_pose_sequences_blend:
  assumes wa: "is_ndarray seq_a" and wb: "is_ndarray seq_b" and nc: "ncols seq_a = ncols seq_b"
    and k: "0 < k" "k \<le> int (nrows seq_a)" "k \<le> int (nrows seq_b)"
  shows "blend_pose_sequences ar seq_a seq_b k =
           Inr \<lparr>ncols = ncols seq_a,
                rows = take (nrows seq_a - nat k) (rows seq_a) @ blended_window ar seq_a seq_b k
                       @ drop (nat k) (rows seq_b)\<rparr>"
proof -
  let ?w = "blended_window ar seq_a seq_b k"
  have loop: "blend_loop ar seq_a seq_b k [0..<nat k] = Inr ?w"
    unfolding blended_window_def
    by (rule blend_loop_ok[OF wa wb nc k(2,3)]) (use k in auto)
  have ne: "?w \<noteq> []"
    using k by (simp add: blended_window_def)
  have lens: "\<forall>r\<in>set ?w. length r = ncols seq_a"
    by (rule blended_window_widths[OF assms])
  have hdw: "length (hd ?w) = ncols seq_a"
    using ne lens by (cases ?w) auto
  have arr: "np_array ?w = Inr \<lparr>ncols = ncols seq_a, rows = ?w\<rparr>"
    using lens hdw by (simp add: np_array_def list_all_iff)
  show ?thesis
    using k ne nc by (simp add: blend_pose_sequences_def loop arr vstack3_def)
qed

lemma blend_pose_sequences_concat:
  assumes "ncols seq_a = ncols seq_b"
    and "k \<le> 0 \<or> int (nrows seq_a) < k \<or> int (nrows seq_b) < k"
  shows "blend_pose_sequences ar seq_a seq_b k =
           Inr \<lparr>ncols = ncols seq_a, rows = rows seq_a @ rows seq_b\<rparr>"
proof (cases "k = 0 \<or> int (nrows seq_a) < k \<or> int (nrows seq_b) < k")
  case True
  then show ?thesis using assms(1) by (simp add: blend_pose_sequences_def vstack2_def)
next
  case False
  with assms(2) have "k < 0" by auto
  then have "nat k = 0" by simp
  with False show ?thesis
    using assms(1) by (simp add: blend_pose_sequences_def vstack2_def)
qed


text \<open>
  Claim C1, as amended. For well-formed sequences \<open>A\<close> (\<open>N1\<close> frames) and \<open>B\<close> (\<open>N2\<close>
  frames) of one width and a blend width \<open>k\<close> with \<open>0 < k \<le> min N1 N2\<close>,
  \<open>blend_pose_sequences\<close> returns a well-formed sequence of \<open>N1 + N2 - k\<close> frames: the
  last \<open>k\<close> frames of \<open>A\<close> and the first \<open>k\<close> frames of \<open>B\<close> are replaced by \<open>k\<close> blended
  frames. With blending disabled (\<open>k = 0\<close>) it returns \<open>N1 + N2\<close> frames.
\<close>

theorem blend_length:
  assumes "is_ndarray seq_a" "is_ndarray seq_b" "ncols seq_a = ncols seq_b"
  shows "(0 < k \<and> k \<le> int (min (nrows seq_a) (nrows seq_b)) \<longrightarrow>
           (\<exists>c. blend_pose_sequences ar seq_a seq_b k = Inr c \<and> is_ndarray c
                \<and> int (nrows c) = int (nrows seq_a) + int (nrows seq_b) - k))
       \<and> (\<exists>c. blend_pose_sequences ar seq_a seq_b 0 = Inr c
                \<and> nrows c = nrows seq_a + nrows seq_b)"
proof (intro conjI impI)
  assume k: "0 < k \<and> k \<le> int (min (nrows seq_a) (nrows seq_b))"
  then have k': "0 < k" "k \<le> int (nrows seq_a)" "k \<le> int (nrows seq_b)"
    by auto
  let ?c = "\<lparr>ncols = ncols seq_a,
             rows = take (nrows seq_a - nat k) (rows seq_a) @ blended_window ar seq_a seq_b k
                    @ drop (nat k) (rows seq_b)\<rparr>"
  have eq: "blend_pose_sequences ar seq_a seq_b k = Inr ?c"
    by (rule blend_pose_sequences_blend[OF assms k'])
  have n: "int (nrows ?c) = int (nrows seq_a) + int (nrows seq_b) - k"
    using k' by (simp add: nrows_def blended_window_def)
  have w: "is_ndarray ?c"
    using assms k' blended_window_widths[OF assms k']
    by (auto simp: is_ndarray_def list_all_iff dest: in_set_takeD in_set_dropD)
  from eq n w show "\<exists>c. blend_pose_sequences ar seq_a seq_b k = Inr c \<and> is_ndarray c
        \<and> int (nrows c) = int (nrows seq_a) + int (nrows seq_b) - k"
    by blast
next
  show "\<exists>c. blend_pose_sequences ar seq_a seq_b 0 = Inr c \<and> nrows c = nrows seq_a + nrows seq_b"
    using blend_pose_sequences_concat[OF assms(3), of 0 ar] by (simp add: nrows_def)
qed

theorem blend_length_witness:
  "(\<exists>c. blend_pose_sequences real_arith
           \<lparr>ncols = 2, rows = [[0, 0], [2, 4], [4, 8]]\<rparr> \<lparr>ncols = 2, rows = [[6, 6], [8, 8]]\<rparr> 2
         = Inr c \<and> is_ndarray c \<and> int (nrows c) = 3 + 2 - 2)
   \<and> (\<exists>c. blend_pose_sequences real_arith
           \<lparr>ncols = 2, rows = [[0, 0], [2, 4], [4, 8]]\<rparr> \<lparr>ncols = 2, rows = [[6, 6], [8, 8]]\<rparr> 0
         = Inr c \<and> nrows c = 3 + 2)"
proof -
  let ?a = "\<lparr>ncols = 2, rows = [[0, 0], [2, 4], [4, 8::real]]\<rparr>"
  let ?b = "\<lparr>ncols = 2, rows = [[6, 6], [8, 8::real]]\<rparr>"
  have wa: "is_ndarray ?a" and wb: "is_ndarray ?b" and nc: "ncols ?a = ncols ?b"
    by (simp_all add: is_ndarray_def)
  have na: "nrows ?a = 3" and nb: "nrows ?b = 2"
    by (simp_all add: nrows_def)
  show ?thesis
    using blend_length[OF wa wb nc, of 2 real_arith] unfolding na nb by simp
qed

text \<open>
  The claim as stated (length \<open>N1 + N2\<close> for \<open>0 < k\<close>) fails: two sequences of two
  156-parameter frames blended with \<open>k = 1\<close> give three frames, not four.
\<close>

theorem blend_length_counterexample:
  "blend_pose_sequences real_arith
     \<lparr>ncols = 156, rows = [replicate 156 0, replicate 156 0]\<rparr>
     \<lparr>ncols = 156, rows = [replicate 156 1, replicate 156 1]\<rparr> 1
   = Inr \<lparr>ncols = 156, rows = [replicate 156 0, replicate 156 (1 / 2), replicate 156 1]\<rparr>
   \<and> length [replicate 156 (0::real), replicate 156 (1 / 2), replicate 156 1] \<noteq> 2 + 2"
proof -
  let ?a = "\<lparr>ncols = 156, rows = [replicate 156 (0::real), replicate 156 0]\<rparr>"
  let ?b = "\<lparr>ncols = 156, rows = [replicate 156 (1::real), replicate 156 1]\<rparr>"
  have "blend_pose_sequences real_arith ?a ?b 1 =
          Inr \<lparr>ncols = ncols ?a,
               rows = take (nrows ?a - nat 1) (rows ?a) @ blended_window real_arith ?a ?b 1
                      @ drop (nat 1) (rows ?b)\<rparr>"
    by (rule blend_pose_sequences_blend) (simp_all add: is_ndarray_def nrows_def)
  then show ?thesis
    by (simp add: nrows_def blended_window_def lerp_frame_def real_arith_def zip_replicate)
qed

text \<open>
  Claim C6. For well-formed sequences \<open>A\<close> and \<open>B\<close> of one width, a blend width \<open>k > 0\<close>
  with both sequences at least \<open>k\<close> frames long, a blend index \<open>i < k\<close> and a parameter
  index \<open>j\<close>: the result's frame \<open>N1 - k + i\<close> has the width of the inputs and its
  parameter \<open>j\<close> is \<open>(1 - alpha) * A[N1 - k + i][j] + alpha * B[i][j]\<close> with
  \<open>alpha = (i + 1) / (k + 1)\<close>, the same formula for every parameter. If either sequence
  is shorter than \<open>k\<close> frames, or \<open>k = 0\<close>, the result is the concatenation of \<open>A\<close> and \<open>B\<close>.
\<close>

theorem blend_window_frames:
  assumes "is_ndarray seq_a" "is_ndarray seq_b" "ncols seq_a = ncols seq_b"
  shows "(0 < k \<and> k \<le> int (nrows seq_a) \<and> k \<le> int (nrows seq_b) \<and> int i < k \<and> j < ncols seq_a \<longrightarrow>
           (\<exists>c. blend_pose_sequences ar seq_a seq_b k = Inr c
                \<and> length (rows c ! (nrows seq_a - nat k + i)) = ncols seq_a
                \<and> rows c ! (nrows seq_a - nat k + i) ! j =
                    f_add ar
                      (f_mul ar (f_sub ar (f_int ar 1) (f_div ar (int i + 1) (k + 1)))
                         (rows seq_a ! (nrows seq_a - nat k + i) ! j))
                      (f_mul ar (f_div ar (int i + 1) (k + 1)) (rows seq_b ! i ! j))))
       \<and> (k = 0 \<or> int (nrows seq_a) < k \<or> int (nrows seq_b) < k \<longrightarrow>
            blend_pose_sequences ar seq_a seq_b k =
              Inr \<lparr>ncols = ncols seq_a, rows = rows seq_a @ rows seq_b\<rparr>)"
proof (intro conjI impI)
  assume h: "0 < k \<and> k \<le> int (nrows seq_a) \<and> k \<le> int (nrows seq_b) \<and> int i < k \<and> j < ncols seq_a"
  then have k': "0 < k" "k \<le> int (nrows seq_a)" "k \<le> int (nrows seq_b)"
    and i: "int i < k" and j: "j < ncols seq_a"
    by auto
  let ?n = "nrows seq_a - nat k"
  let ?c = "\<lparr>ncols = ncols seq_a,
             rows = take ?n (rows seq_a) @ blended_window ar seq_a seq_b k
                    @ drop (nat k) (rows seq_b)\<rparr>"
  have eq: "blend_pose_sequences ar seq_a seq_b k = Inr ?c"
    by (rule blend_pose_sequences_blend[OF assms k'])
  have lt: "length (take ?n (rows seq_a)) = ?n"
    using k' by (simp add: nrows_def)
  have iw: "i < length (blended_window ar seq_a seq_b k)"
    using i by (simp add: blended_window_def)
  have at: "rows ?c ! (?n + i) = blended_window ar seq_a seq_b k ! i"
    using lt iw by (simp add: nth_append)
  have i': "i < nat k"
    using i by simp
  have wi: "blended_window ar seq_a seq_b k ! i =
              lerp_frame ar k i (rows seq_a ! (?n + i)) (rows seq_b ! i)"
    using i' by (simp add: blended_window_def)
  have ia: "?n + i < length (rows seq_a)"
    using i k' by (simp add: nrows_def)
  have ib: "i < length (rows seq_b)"
    using i k' by (simp add: nrows_def)
  have la: "length (rows seq_a ! (?n + i)) = ncols seq_a"
    by (rule is_ndarray_nth[OF assms(1) ia])
  have lb: "length (rows seq_b ! i) = ncols seq_a"
    using is_ndarray_nth[OF assms(2) ib] assms(3) by simp
  have len: "length (rows ?c ! (?n + i)) = ncols seq_a"
    by (simp only: at wi length_lerp_frame la lb min.idem)
  have val: "rows ?c ! (?n + i) ! j =
               f_add ar
                 (f_mul ar (f_sub ar (f_int ar 1) (f_div ar (int i + 1) (k + 1)))
                    (rows seq_a ! (?n + i) ! j))
                 (f_mul ar (f_div ar (int i + 1) (k + 1)) (rows seq_b ! i ! j))"
    using j la lb by (simp only: at wi) (simp add: lerp_frame_def)
  from eq len val
  show "\<exists>c. blend_pose_sequences ar seq_a seq_b k = Inr c
          \<and> length (rows c ! (?n + i)) = ncols seq_a
          \<and> rows c ! (?n + i) ! j =
              f_add ar
                (f_mul ar (f_sub ar (f_int ar 1) (f_div ar (int i + 1) (k + 1)))
                   (rows seq_a ! (?n + i) ! j))
                (f_mul ar (f_div ar (int i + 1) (k + 1)) (rows seq_b ! i ! j))"
    by blast
next
  assume "k = 0 \<or> int (nrows seq_a) < k \<or> int (nrows seq_b) < k"
  then have "k \<le> 0 \<or> int (nrows seq_a) < k \<or> int (nrows seq_b) < k"
    by auto
  then show "blend_pose_sequences ar seq_a seq_b k =
               Inr \<lparr>ncols = ncols seq_a, rows = rows seq_a @ rows seq_b\<rparr>"
    by (rule blend_pose_sequences_concat[OF assms(3)])
qed

theorem blend_window_frames_witness:
  "(\<exists>c. blend_pose_sequences real_arith
           \<lparr>ncols = 2, rows = [[0, 0], [3, 6], [6, 9]]\<rparr> \<lparr>ncols = 2, rows = [[9, 12], [12, 15]]\<rparr> 2
         = Inr c
         \<and> length (rows c ! (3 - nat 2 + 1)) = 2
         \<and> rows c ! (3 - nat 2 + 1) ! 0 = (1 - (1 + 1) / (2 + 1)) * 6 + (1 + 1) / (2 + 1) * (12::real))
   \<and> blend_pose_sequences real_arith
           \<lparr>ncols = 2, rows = [[0, 0], [3, 6], [6, 9]]\<rparr> \<lparr>ncols = 2, rows = [[9, 12], [12, 15]]\<rparr> 3
         = Inr \<lparr>ncols = 2, rows = [[0, 0], [3, 6], [6, 9], [9, 12], [12, 15]]\<rparr>"
  using blend_window_frames[of "\<lparr>ncols = 2, rows = [[0, 0], [3, 6], [6, 9]]\<rparr>"
      "\<lparr>ncols = 2, rows = [[9, 12], [12, 15]]\<rparr>" 2 1 0 real_arith]
    blend_window_frames[of "\<lparr>ncols = 2, rows = [[0, 0], [3, 6], [6, 9]]\<rparr>"
      "\<lparr>ncols = 2, rows = [[9, 12], [12, 15]]\<rparr>" 3 0 0 real_arith]
  by (simp add: is_ndarray_def nrows_def real_arith_def)

section \<open>Verification: the Anatomical Constraint Engine\<close>

subsection \<open>Clipping\<close>

lemma np_clip_NaN: "np_clip NaN lo hi = NaN"
  by (simp add: np_clip_def np_maximum_def np_minimum_def isnan_def)

lemma np_clip_Fin:
  "np_clip x (Fin a) (Fin b) =
     (case x of NaN \<Rightarrow> NaN | PInf \<Rightarrow> Fin b | NInf \<Rightarrow> (if a \<le> b then Fin a else Fin b)
      | Fin v \<Rightarrow> (if v \<le> a then (if a \<le> b then Fin a else Fin b)
                  else if v \<le> b then Fin v else Fin b))"
  by (cases x) (simp_all add: np_clip_def np_maximum_def np_minimum_def isnan_def)

lemma np_clip_in_interval:
  assumes "a \<le> b" "x \<noteq> NaN"
  shows "in_interval (np_clip x (Fin a) (Fin b)) (Fin a, Fin b)"
  using assms by (cases x) (simp_all add: np_clip_Fin in_interval_def)

lemma np_clip_idem:
  assumes "a \<le> b"
  shows "np_clip (np_clip x (Fin a) (Fin b)) (Fin a) (Fin b) = np_clip x (Fin a) (Fin b)"
  using assms by (cases x) (simp_all add: np_clip_Fin)

lemma np_clip_finite_or_nan:
  "np_clip x (Fin a) (Fin b) = NaN \<or> isfinite (np_clip x (Fin a) (Fin b))"
  by (cases x) (simp_all add: np_clip_Fin isfinite_def)

lemma hand_joint_limits_ordered:
  assumes "map_of hand_joint_limits key = Some (lo, hi)"
  shows "isfinite lo \<and> isfinite hi \<and> fl_le lo hi"
proof -
  from assms have "(key, lo, hi) \<in> set hand_joint_limits"
    by (rule map_of_SomeD)
  then show ?thesis
    by (auto simp: hand_joint_limits_def isfinite_def)
qed

lemma hand_joint_limits_bounds:
  assumes "map_of hand_joint_limits key = Some (lo, hi)"
  shows "\<exists>a b. lo = Fin a \<and> hi = Fin b \<and> a \<le> b"
proof -
  from hand_joint_limits_ordered[OF assms]
  have f: "isfinite lo" "isfinite hi" and le: "fl_le lo hi"
    by simp_all
  from f obtain a b where "lo = Fin a" "hi = Fin b"
    by (cases lo; cases hi) (simp_all add: isfinite_def)
  with le show ?thesis
    by simp
qed

lemma clip_by_NaN: "cast NaN = NaN \<Longrightarrow> clip_by cast key NaN = NaN"
  by (simp add: clip_by_def np_clip_NaN split: option.splits)

lemma clip_by_in_interval:
  assumes "monotone_cast cast" "map_of hand_joint_limits key = Some (lo, hi)" "x \<noteq> NaN"
  shows "in_interval (clip_by cast key x) (cast lo, cast hi)"
proof -
  from hand_joint_limits_bounds[OF assms(2)]
  obtain a b where ab: "lo = Fin a" "hi = Fin b" "a \<le> b"
    by blast
  from np_clip_in_interval[OF ab(3) assms(3)]
  have "fl_le lo (np_clip x lo hi)" "fl_le (np_clip x lo hi) hi"
    by (simp_all add: in_interval_def ab)
  with assms(1) have "fl_le (cast lo) (cast (np_clip x lo hi))"
    "fl_le (cast (np_clip x lo hi)) (cast hi)"
    by (simp_all add: monotone_cast_def)
  then show ?thesis
    by (simp add: clip_by_def assms(2) in_interval_def)
qed

lemma clip_by_idem: "clip_by float64_cast key (clip_by float64_cast key x) = clip_by float64_cast key x"
proof (cases "map_of hand_joint_limits key")
  case None
  then show ?thesis by (simp add: clip_by_def)
next
  case (Some iv)
  obtain lo hi where iv: "iv = (lo, hi)"
    by (cases iv)
  from hand_joint_limits_bounds[OF Some[unfolded iv]]
  obtain a b where "lo = Fin a" "hi = Fin b" "a \<le> b"
    by blast
  then show ?thesis
    using np_clip_idem[of a b x] by (simp add: clip_by_def float64_cast_def Some iv)
qed

lemma clip_by_finite_or_nan:
  assumes "map_of hand_joint_limits key = Some iv"
  shows "clip_by float64_cast key x = NaN \<or> isfinite (clip_by float64_cast key x)"
proof -
  obtain lo hi where iv: "iv = (lo, hi)"
    by (cases iv)
  from hand_joint_limits_bounds[OF assms[unfolded iv]]
  obtain a b where "lo = Fin a" "hi = Fin b"
    by blast
  then show ?thesis
    using np_clip_finite_or_nan[of x a b] by (simp add: clip_by_def float64_cast_def assms iv)
qed

subsection \<open>The engine on a frame of 45 values\<close>

lemma list_update_Cons_numeral: "(x # xs)[numeral k := y] = x # xs[pred_numeral k := y]"
  by (simp add: numeral_eq_Suc)

lemma hand_joint_limits_keys:
  "fst ` set hand_joint_limits =
     {''mcp_flexion'', ''mcp_abduction'', ''mcp_twist'', ''pip_flexion'', ''pip_side_flex'',
      ''pip_twist'', ''dip_flexion'', ''dip_side_flex'', ''dip_twist'', ''thumb_cmc_flexion'',
      ''thumb_cmc_abduction'', ''thumb_cmc_twist'', ''thumb_mcp_flexion'',
      ''thumb_mcp_abduction'', ''thumb_mcp_twist'', ''thumb_ip_flexion'',
      ''thumb_ip_side_flex'', ''thumb_ip_twist'', ''general_clamp''}"
  by (simp add: hand_joint_limits_def)

lemma clip_dof_ok:
  assumes "start_idx + d < length pose" "start_idx + d < end_idx"
    and "key \<in> fst ` set hand_joint_limits"
  shows "clip_dof cast start_idx end_idx d key pose =
           Inr (pose[start_idx + d := clip_by cast key (pose ! (start_idx + d))])"
proof -
  from assms(3) obtain iv where iv: "map_of hand_joint_limits key = Some iv"
    by (metis domD dom_map_of_conv_image_fst)
  have "d < slice_len (length pose) start_idx end_idx"
    using assms(1,2) by (simp add: slice_len_def)
  then show ?thesis
    by (cases iv) (simp add: clip_dof_def limit_of_def clip_by_def iv)
qed

lemma clip_joint_ok:
  assumes "start_idx + 3 \<le> length pose" "end_idx = start_idx + 3"
    and "k0 \<in> fst ` set hand_joint_limits" "k1 \<in> fst ` set hand_joint_limits"
        "k2 \<in> fst ` set hand_joint_limits"
  shows "clip_joint cast start_idx end_idx k0 k1 k2 pose =
           Inr (pose[start_idx := clip_by cast k0 (pose ! start_idx),
                     start_idx + 1 := clip_by cast k1 (pose ! (start_idx + 1)),
                     start_idx + 2 := clip_by cast k2 (pose ! (start_idx + 2))])"
  using assms clip_dof_ok[of start_idx 0 pose end_idx k0 cast]
  by (simp add: clip_joint_def bind_err_def clip_dof_ok)

lemma frame_explicit:
  "apply_anatomical_constraints_to_frame_as cast
    [x0, x1, x2, x3, x4, x5, x6, x7, x8, x9, x10, x11, x12, x13, x14, x15, x16, x17, x18,
     x19, x20, x21, x22, x23, x24, x25, x26, x27, x28, x29, x30, x31, x32, x33, x34, x35,
     x36, x37, x38, x39, x40, x41, x42, x43, x44] =
   Inr [clip_by cast ''thumb_cmc_flexion'' x0, clip_by cast ''thumb_cmc_abduction'' x1,
        clip_by cast ''thumb_cmc_twist'' x2, clip_by cast ''thumb_mcp_flexion'' x3,
        clip_by cast ''thumb_mcp_abduction'' x4, clip_by cast ''thumb_mcp_twist'' x5,
        clip_by cast ''thumb_ip_flexion'' x6, clip_by cast ''thumb_ip_side_flex'' x7,
        clip_by cast ''thumb_ip_twist'' x8, clip_by cast ''mcp_flexion'' x9,
        clip_by cast ''mcp_abduction'' x10, clip_by cast ''mcp_twist'' x11,
        clip_by cast ''pip_flexion'' x12, clip_by cast ''pip_side_flex'' x13,
        clip_by cast ''pip_twist'' x14, clip_by cast ''dip_flexion'' x15,
        clip_by cast ''dip_side_flex'' x16, clip_by cast ''dip_twist'' x17,
        clip_by cast ''mcp_flexion'' x18, clip_by cast ''mcp_abduction'' x19,
        clip_by cast ''mcp_twist'' x20, clip_by cast ''pip_flexion'' x21,
        clip_by cast ''pip_side_flex'' x22, clip_by cast ''pip_twist'' x23,
        clip_by cast ''dip_flexion'' x24, clip_by cast ''dip_side_flex'' x25,
        clip_by cast ''dip_twist'' x26, clip_by cast ''mcp_flexion'' x27,
        clip_by cast ''mcp_abduction'' x28, clip_by cast ''mcp_twist'' x29,
        clip_by cast ''pip_flexion'' x30, clip_by cast ''pip_side_flex'' x31,
        clip_by cast ''pip_twist'' x32, clip_by cast ''dip_flexion'' x33,
        clip_by cast ''dip_side_flex'' x34, clip_by cast ''dip_twist'' x35,
        clip_by cast ''mcp_flexion'' x36, clip_by cast ''mcp_abduction'' x37,
        clip_by cast ''mcp_twist'' x38, clip_by cast ''pip_flexion'' x39,
        clip_by cast ''pip_side_flex'' x40, clip_by cast ''pip_twist'' x41,
        clip_by cast ''dip_flexion'' x42, clip_by cast ''dip_side_flex'' x43,
        clip_by cast ''dip_twist'' x44]"
  by (simp add: apply_anatomical_constraints_to_frame_as_def finger_joint_mapping_def
      constrain_joint_def clip_joint_ok hand_joint_limits_keys list_update_Cons_numeral)

lemma dof_keys_explicit:
  "dof_keys =
     [''thumb_cmc_flexion'', ''thumb_cmc_abduction'', ''thumb_cmc_twist'',
      ''thumb_mcp_flexion'', ''thumb_mcp_abduction'', ''thumb_mcp_twist'',
      ''thumb_ip_flexion'', ''thumb_ip_side_flex'', ''thumb_ip_twist'', ''mcp_flexion'',
      ''mcp_abduction'', ''mcp_twist'', ''pip_flexion'', ''pip_side_flex'', ''pip_twist'',
      ''dip_flexion'', ''dip_side_flex'', ''dip_twist'', ''mcp_flexion'', ''mcp_abduction'',
      ''mcp_twist'', ''pip_flexion'', ''pip_side_flex'', ''pip_twist'', ''dip_flexion'',
      ''dip_side_flex'', ''dip_twist'', ''mcp_flexion'', ''mcp_abduction'', ''mcp_twist'',
      ''pip_flexion'', ''pip_side_flex'', ''pip_twist'', ''dip_flexion'', ''dip_side_flex'',
      ''dip_twist'', ''mcp_flexion'', ''mcp_abduction'', ''mcp_twist'', ''pip_flexion'',
      ''pip_side_flex'', ''pip_twist'', ''dip_flexion'', ''dip_side_flex'', ''dip_twist'']"
  by (simp add: dof_keys_def finger_joint_mapping_def declared_key_def)

lemma upt_45:
  "[0..<45] =
    [0, 1, 2, 3, 4, 5, 6, 7, 8, 9, 10, 11, 12, 13, 14, 15, 16, 17, 18, 19, 20, 21, 22, 23,
     24, 25, 26, 27, 28, 29, 30, 31, 32, 33, 34, 35, 36, 37, 38, 39, 40, 41, 42, 43, 44]"
  by (simp add: upt_rec)

lemma list_45:
  assumes "length xs = 45"
  shows "xs = [xs ! 0, xs ! 1, xs ! 2, xs ! 3, xs ! 4, xs ! 5, xs ! 6, xs ! 7, xs ! 8, xs ! 9,
          xs ! 10, xs ! 11, xs ! 12, xs ! 13, xs ! 14, xs ! 15, xs ! 16, xs ! 17, xs ! 18,
          xs ! 19, xs ! 20, xs ! 21, xs ! 22, xs ! 23, xs ! 24, xs ! 25, xs ! 26, xs ! 27,
          xs ! 28, xs ! 29, xs ! 30, xs ! 31, xs ! 32, xs ! 33, xs ! 34, xs ! 35, xs ! 36,
          xs ! 37, xs ! 38, xs ! 39, xs ! 40, xs ! 41, xs ! 42, xs ! 43, xs ! 44]"
proof -
  have "xs = map ((!) xs) [0..<45]"
    using map_nth[of xs] assms by simp
  then show ?thesis
    unfolding upt_45 by simp
qed

lemma frame_as_char:
  assumes "length frame = 45"
  shows "apply_anatomical_constraints_to_frame_as cast frame
           = Inr (map2 (clip_by cast) dof_keys frame)"
proof -
  note e = list_45[OF assms]
  show ?thesis
    by (subst (1 2) e) (simp only: frame_explicit dof_keys_explicit zip.simps list.simps
        list.map prod.case zip_Cons_Cons zip_Nil)
qed

lemma frame_char:
  assumes "length frame = 45"
  shows "apply_anatomical_constraints_to_frame frame = Inr (map2 (clip_by float64_cast) dof_keys frame)"
  unfolding apply_anatomical_constraints_to_frame_def by (rule frame_as_char[OF assms])

lemma all_less_3: "(\<forall>d<3. P d) \<longleftrightarrow> P 0 \<and> P (Suc 0) \<and> P 2"
proof -
  have "\<And>d::nat. d < 3 \<longleftrightarrow> d = 0 \<or> d = Suc 0 \<or> d = 2"
    by auto
  then show ?thesis
    by auto
qed

lemma length_dof_keys: "length dof_keys = 45"
  by (simp add: dof_keys_explicit)

lemma joint_layout:
  "\<forall>(finger_name, joints)\<in>set finger_joint_mapping.
     \<forall>(joint_type, start_idx, end_idx)\<in>set joints. \<forall>d<3.
       start_idx + d < 45
       \<and> dof_keys ! (start_idx + d) = declared_key finger_name joint_type d
       \<and> declared_key finger_name joint_type d \<in> fst ` set hand_joint_limits"
  unfolding all_less_3 hand_joint_limits_keys
  by (simp add: finger_joint_mapping_def dof_keys_explicit declared_key_def)

lemma frame_out_nth:
  assumes "length frame = 45" "i < 45"
  shows "map2 (clip_by cast) dof_keys frame ! i = clip_by cast (dof_keys ! i) (frame ! i)"
  using assms by (simp add: length_dof_keys)

subsection \<open>Single precision keeps the order\<close>

lemma pow2_powr: "pow2 k = 2 powr (real_of_int k)"
proof (cases "0 \<le> k")
  case True
  then show ?thesis
    by (simp add: pow2_def powr_realpow[symmetric])
next
  case False
  then have "2 powr (real_of_int k) = 1 / 2 powr (real_of_int (- k))"
    by (simp add: powr_minus_divide)
  also have "\<dots> = 1 / 2 ^ nat (- k)"
    using False by (simp add: powr_realpow[symmetric])
  finally show ?thesis
    using False by (simp add: pow2_def)
qed

lemma pow2_pos: "0 < pow2 k"
  by (simp add: pow2_powr)

lemma pow2_Suc: "pow2 (k + 1) = 2 * pow2 k"
  by (simp add: pow2_powr powr_add)

lemma pow2_pred: "2 * pow2 (k - 1) = pow2 k"
  using pow2_Suc[of "k - 1"] by simp

lemma pow2_mono: "j \<le> k \<Longrightarrow> pow2 j \<le> pow2 k"
  by (simp add: pow2_powr)

lemma pow2_diff_int: "j \<le> k \<Longrightarrow> pow2 k / pow2 j = of_int (2 ^ nat (k - j))"
proof -
  assume "j \<le> k"
  then have "pow2 k / pow2 j = 2 powr (real_of_int (k - j))"
    by (simp add: pow2_powr powr_diff)
  also have "\<dots> = 2 ^ nat (k - j)"
    using \<open>j \<le> k\<close> by (simp add: powr_realpow[symmetric])
  finally show ?thesis
    by simp
qed

lemma round_half_even_of_int: "round_half_even (of_int k) = k"
  by (simp add: round_half_even_def)

lemma round_half_even_range:
  "round_half_even x = \<lfloor>x\<rfloor> \<or> round_half_even x = \<lfloor>x\<rfloor> + 1"
  by (simp add: round_half_even_def Let_def)

lemma round_half_even_mono:
  assumes "x \<le> y"
  shows "round_half_even x \<le> round_half_even y"
proof (cases "\<lfloor>x\<rfloor> = \<lfloor>y\<rfloor>")
  case True
  with assms have "x - of_int \<lfloor>x\<rfloor> \<le> y - of_int \<lfloor>y\<rfloor>"
    by simp
  then show ?thesis
    using True by (auto simp: round_half_even_def Let_def)
next
  case False
  with assms have "\<lfloor>x\<rfloor> + 1 \<le> \<lfloor>y\<rfloor>"
    using floor_mono[OF assms] by linarith
  then show ?thesis
    using round_half_even_range[of x] round_half_even_range[of y] by linarith
qed

lemma binade_unit: "1 \<le> m \<Longrightarrow> m < 2 \<Longrightarrow> binade n m e = e"
  by (cases n) simp_all

lemma binade_up:
  assumes "1 \<le> m"
  shows "e \<le> binade n m e \<and> binade n m e \<le> e + int n
         \<and> pow2 (binade n m e) \<le> m * pow2 e
         \<and> (binade n m e < e + int n \<longrightarrow> m * pow2 e < pow2 (binade n m e + 1))"
  using assms
proof (induction n arbitrary: m e)
  case 0
  then show ?case
    using pow2_pos[of e] by simp
next
  case (Suc n)
  show ?case
  proof (cases "2 \<le> m")
    case True
    then have h: "1 \<le> m / 2"
      by simp
    have eq: "m / 2 * pow2 (e + 1) = m * pow2 e"
      by (simp add: pow2_Suc)
    from Suc.IH[OF h, of "e + 1"] show ?thesis
      using True unfolding eq by simp
  next
    case False
    with Suc.prems have "m * pow2 e < pow2 (e + 1)"
      using pow2_pos[of e] by (simp add: pow2_Suc)
    moreover have "pow2 e \<le> m * pow2 e"
      using Suc.prems pow2_pos[of e] by simp
    ultimately show ?thesis
      using False Suc.prems by simp
  qed
qed

lemma binade_down:
  assumes "0 < m" "m < 1"
  shows "binade n m e \<le> e \<and> e - int n \<le> binade n m e
         \<and> m * pow2 e < pow2 (binade n m e + 1)
         \<and> (e - int n < binade n m e \<longrightarrow> pow2 (binade n m e) \<le> m * pow2 e)"
  using assms
proof (induction n arbitrary: m e)
  case 0
  then show ?case
    using pow2_pos[of e] by (simp add: pow2_Suc)
next
  case (Suc n)
  have eq: "m * 2 * pow2 (e - 1) = m * pow2 e"
    using pow2_pred[of e] by simp
  show ?case
  proof (cases "m * 2 < 1")
    case True
    from Suc.prems have "0 < m * 2"
      by simp
    from Suc.IH[OF this True, of "e - 1"] show ?thesis
      using Suc.prems unfolding eq by simp
  next
    case False
    with Suc.prems have u: "1 \<le> m * 2" "m * 2 < 2"
      by simp_all
    have r: "binade (Suc n) m e = e - 1"
      using Suc.prems binade_unit[OF u] by simp
    have "m * pow2 e < pow2 e"
      using Suc.prems pow2_pos[of e] by simp
    moreover have "pow2 (e - 1) \<le> m * pow2 e"
      using u pow2_pos[of "e - 1"] unfolding eq[symmetric] by simp
    ultimately show ?thesis
      unfolding r by simp
  qed
qed

lemma pow2_0: "pow2 0 = 1"
  by (simp add: pow2_def)

lemma binade_bounds:
  assumes "0 < m"
  shows "- int n \<le> binade n m 0 \<and> binade n m 0 \<le> int n
         \<and> (- int n < binade n m 0 \<longrightarrow> pow2 (binade n m 0) \<le> m)
         \<and> (binade n m 0 < int n \<longrightarrow> m < pow2 (binade n m 0 + 1))"
proof (cases "1 \<le> m")
  case True
  from binade_up[OF True, of 0 n] show ?thesis
    by (simp add: pow2_0)
next
  case False
  with assms binade_down[of m n 0] show ?thesis
    by (simp add: pow2_0)
qed

lemma binade_mono:
  assumes "0 < m" "m \<le> m'"
  shows "binade n m 0 \<le> binade n m' 0"
proof (rule ccontr)
  assume "\<not> binade n m 0 \<le> binade n m' 0"
  then have lt: "binade n m' 0 < binade n m 0"
    by simp
  from assms have m': "0 < m'"
    by simp
  from binade_bounds[OF assms(1), of n] binade_bounds[OF m', of n] lt
  have "pow2 (binade n m 0) \<le> m" "m' < pow2 (binade n m' 0 + 1)"
    by linarith+
  moreover have "pow2 (binade n m' 0 + 1) \<le> pow2 (binade n m 0)"
    using lt by (intro pow2_mono) simp
  ultimately show False
    using assms(2) by linarith
qed

lemma binade_range: "e - int n \<le> binade n m e \<and> binade n m e \<le> e + int n"
proof (induction n arbitrary: m e)
  case 0
  then show ?case by simp
next
  case (Suc n)
  from Suc.IH[of "e + 1" "m / 2"] Suc.IH[of "e - 1" "m * 2"] show ?case
    by simp
qed

lemma float32_exponent_range: "- 126 \<le> float32_exponent v \<and> float32_exponent v \<le> 200"
  using binade_range[of 0 200 "\<bar>v\<bar>"] by (simp add: float32_exponent_def)

lemma float32_exponent_mono:
  assumes "0 < \<bar>a\<bar>" "\<bar>a\<bar> \<le> \<bar>b\<bar>"
  shows "float32_exponent a \<le> float32_exponent b"
  using binade_mono[OF assms, of 200] by (simp add: float32_exponent_def)

lemma float32_exponent_lower:
  assumes "v \<noteq> 0" "- 126 < float32_exponent v"
  shows "pow2 (float32_exponent v) \<le> \<bar>v\<bar>"
proof -
  from assms(1) have p: "0 < \<bar>v\<bar>"
    by simp
  from assms(2) have e: "float32_exponent v = binade 200 \<bar>v\<bar> 0"
    by (simp add: float32_exponent_def max_def split: if_splits)
  from binade_bounds[OF p, of 200] assms(2) show ?thesis
    unfolding e by simp
qed

lemma float32_exponent_upper:
  assumes "v \<noteq> 0" "float32_exponent v < 200"
  shows "\<bar>v\<bar> < pow2 (float32_exponent v + 1)"
proof -
  from assms(1) have p: "0 < \<bar>v\<bar>"
    by simp
  have le: "binade 200 \<bar>v\<bar> 0 \<le> float32_exponent v"
    by (simp add: float32_exponent_def)
  with assms(2) have "binade 200 \<bar>v\<bar> 0 < 200"
    by simp
  with binade_bounds[OF p, of 200] have "\<bar>v\<bar> < pow2 (binade 200 \<bar>v\<bar> 0 + 1)"
    by simp
  also have "\<dots> \<le> pow2 (float32_exponent v + 1)"
    using le by (intro pow2_mono) simp
  finally show ?thesis .
qed

text \<open>Rounding to a grid of spacing \<open>2 ^ j\<close> does not cross a power of two \<open>2 ^ k\<close>, \<open>j \<le> k\<close>.\<close>

lemma grid_le:
  assumes "j \<le> k" "x \<le> pow2 k"
  shows "of_int (round_half_even (x / pow2 j)) * pow2 j \<le> pow2 k"
proof -
  have "x / pow2 j \<le> pow2 k / pow2 j"
    using assms(2) pow2_pos[of j] by (simp add: divide_right_mono)
  also have "\<dots> = of_int (2 ^ nat (k - j))"
    by (rule pow2_diff_int[OF assms(1)])
  finally have "round_half_even (x / pow2 j) \<le> 2 ^ nat (k - j)"
    using round_half_even_mono[of "x / pow2 j" "of_int (2 ^ nat (k - j))"]
    by (simp only: round_half_even_of_int)
  then have "real_of_int (round_half_even (x / pow2 j)) \<le> of_int (2 ^ nat (k - j))"
    by (simp only: of_int_le_iff)
  then have "of_int (round_half_even (x / pow2 j)) * pow2 j \<le> of_int (2 ^ nat (k - j)) * pow2 j"
    using pow2_pos[of j] by (simp add: mult_right_mono)
  also have "\<dots> = pow2 k"
    using pow2_diff_int[OF assms(1)] pow2_pos[of j] by (simp add: field_simps)
  finally show ?thesis .
qed

lemma grid_ge:
  assumes "j \<le> k" "pow2 k \<le> x"
  shows "pow2 k \<le> of_int (round_half_even (x / pow2 j)) * pow2 j"
proof -
  have "pow2 k / pow2 j \<le> x / pow2 j"
    using assms(2) pow2_pos[of j] by (simp add: divide_right_mono)
  then have "of_int (2 ^ nat (k - j)) \<le> x / pow2 j"
    by (simp only: pow2_diff_int[OF assms(1)])
  then have "2 ^ nat (k - j) \<le> round_half_even (x / pow2 j)"
    using round_half_even_mono[of "of_int (2 ^ nat (k - j))" "x / pow2 j"]
    by (simp only: round_half_even_of_int)
  then have "real_of_int (2 ^ nat (k - j)) \<le> of_int (round_half_even (x / pow2 j))"
    by (simp only: of_int_le_iff)
  then have "of_int (2 ^ nat (k - j)) * pow2 j \<le> of_int (round_half_even (x / pow2 j)) * pow2 j"
    using pow2_pos[of j] by (simp add: mult_right_mono)
  moreover have "of_int (2 ^ nat (k - j)) * pow2 j = pow2 k"
    using pow2_diff_int[OF assms(1)] pow2_pos[of j] by (simp add: field_simps)
  ultimately show ?thesis
    by simp
qed

lemma grid_le_neg:
  assumes "j \<le> k" "x \<le> - pow2 k"
  shows "of_int (round_half_even (x / pow2 j)) * pow2 j \<le> - pow2 k"
proof -
  have "x / pow2 j \<le> (- pow2 k) / pow2 j"
    by (rule divide_right_mono[OF assms(2) less_imp_le[OF pow2_pos]])
  also have "\<dots> = of_int (- (2 ^ nat (k - j)))"
    using pow2_diff_int[OF assms(1)] by simp
  finally have "round_half_even (x / pow2 j) \<le> - (2 ^ nat (k - j))"
    using round_half_even_mono[of "x / pow2 j" "of_int (- (2 ^ nat (k - j)))"]
    by (simp only: round_half_even_of_int)
  then have "real_of_int (round_half_even (x / pow2 j)) \<le> of_int (- (2 ^ nat (k - j)))"
    by (simp only: of_int_le_iff)
  then have "of_int (round_half_even (x / pow2 j)) * pow2 j
               \<le> of_int (- (2 ^ nat (k - j))) * pow2 j"
    by (rule mult_right_mono[OF _ less_imp_le[OF pow2_pos]])
  also have "\<dots> = - pow2 k"
    using pow2_diff_int[OF assms(1)] pow2_pos[of j] by (simp add: field_simps)
  finally show ?thesis .
qed

lemma grid_ge_neg:
  assumes "j \<le> k" "- pow2 k \<le> x"
  shows "- pow2 k \<le> of_int (round_half_even (x / pow2 j)) * pow2 j"
proof -
  have "(- pow2 k) / pow2 j \<le> x / pow2 j"
    by (rule divide_right_mono[OF assms(2) less_imp_le[OF pow2_pos]])
  then have "of_int (- (2 ^ nat (k - j))) \<le> x / pow2 j"
    using pow2_diff_int[OF assms(1)] by simp
  then have "- (2 ^ nat (k - j)) \<le> round_half_even (x / pow2 j)"
    using round_half_even_mono[of "of_int (- (2 ^ nat (k - j)))" "x / pow2 j"]
    by (simp only: round_half_even_of_int)
  then have "real_of_int (- (2 ^ nat (k - j))) \<le> of_int (round_half_even (x / pow2 j))"
    by (simp only: of_int_le_iff)
  then have "of_int (- (2 ^ nat (k - j))) * pow2 j
               \<le> of_int (round_half_even (x / pow2 j)) * pow2 j"
    by (rule mult_right_mono[OF _ less_imp_le[OF pow2_pos]])
  moreover have "of_int (- (2 ^ nat (k - j))) * pow2 j = - pow2 k"
    using pow2_diff_int[OF assms(1)] pow2_pos[of j] by (simp add: field_simps)
  ultimately show ?thesis
    by simp
qed

lemma grid_sign:
  "x \<le> 0 \<Longrightarrow> of_int (round_half_even (x / pow2 j)) * pow2 j \<le> 0"
  "0 \<le> x \<Longrightarrow> 0 \<le> of_int (round_half_even (x / pow2 j)) * pow2 j"
proof -
  assume "x \<le> 0"
  then have "x / pow2 j \<le> of_int 0"
    using pow2_pos[of j] by (simp add: divide_le_0_iff)
  from round_half_even_mono[OF this] have "round_half_even (x / pow2 j) \<le> 0"
    by (simp only: round_half_even_of_int)
  then show "of_int (round_half_even (x / pow2 j)) * pow2 j \<le> 0"
    using pow2_pos[of j] by (simp add: mult_le_0_iff)
next
  assume "0 \<le> x"
  then have "of_int 0 \<le> x / pow2 j"
    using pow2_pos[of j] by simp
  from round_half_even_mono[OF this] have "0 \<le> round_half_even (x / pow2 j)"
    by (simp only: round_half_even_of_int)
  then show "0 \<le> of_int (round_half_even (x / pow2 j)) * pow2 j"
    using pow2_pos[of j] by simp
qed

lemma float32_nearest_mono:
  assumes "a \<le> b"
  shows "float32_nearest a \<le> float32_nearest b"
proof -
  let ?E = float32_exponent
  let ?N = float32_nearest
  have N: "\<And>v. ?N v = of_int (round_half_even (v / pow2 (?E v - 23))) * pow2 (?E v - 23)"
    by (simp add: float32_nearest_def Let_def)
  have same: "?N a \<le> ?N b" if "?E a = ?E b"
  proof -
    have "a / pow2 (?E b - 23) \<le> b / pow2 (?E b - 23)"
      by (rule divide_right_mono[OF assms less_imp_le[OF pow2_pos]])
    from round_half_even_mono[OF this]
    have "real_of_int (round_half_even (a / pow2 (?E b - 23)))
            \<le> of_int (round_half_even (b / pow2 (?E b - 23)))"
      by (simp only: of_int_le_iff)
    then have "of_int (round_half_even (a / pow2 (?E b - 23))) * pow2 (?E b - 23)
            \<le> of_int (round_half_even (b / pow2 (?E b - 23))) * pow2 (?E b - 23)"
      by (rule mult_right_mono[OF _ less_imp_le[OF pow2_pos]])
    then show ?thesis
      by (simp only: N that)
  qed
  consider (pos) "0 < a" | (neg) "b < 0" | (mid) "a \<le> 0" "0 \<le> b"
    by linarith
  then show ?thesis
  proof cases
    case pos
    with assms have nz: "a \<noteq> 0" "b \<noteq> 0" and ab: "0 < \<bar>a\<bar>" "\<bar>a\<bar> \<le> \<bar>b\<bar>"
      by simp_all
    from float32_exponent_mono[OF ab] have le: "?E a \<le> ?E b" .
    show ?thesis
    proof (cases "?E a = ?E b")
      case True
      then show ?thesis by (rule same)
    next
      case False
      with le have lt: "?E a < ?E b"
        by simp
      with float32_exponent_range[of b] have "?E a < 200"
        by simp
      from float32_exponent_upper[OF nz(1) this] pos have "a \<le> pow2 (?E a + 1)"
        by simp
      from grid_le[OF _ this, of "?E a - 23"] have 1: "?N a \<le> pow2 (?E a + 1)"
        by (simp add: N)
      from lt float32_exponent_range[of a] have "- 126 < ?E b"
        by simp
      from float32_exponent_lower[OF nz(2) this] pos assms have "pow2 (?E b) \<le> b"
        by simp
      from grid_ge[OF _ this, of "?E b - 23"] have 2: "pow2 (?E b) \<le> ?N b"
        by (simp add: N)
      have "pow2 (?E a + 1) \<le> pow2 (?E b)"
        using lt by (intro pow2_mono) simp
      with 1 2 show ?thesis
        by linarith
    qed
  next
    case neg
    with assms have nz: "a \<noteq> 0" "b \<noteq> 0" and ab: "0 < \<bar>b\<bar>" "\<bar>b\<bar> \<le> \<bar>a\<bar>"
      by simp_all
    from float32_exponent_mono[OF ab] have le: "?E b \<le> ?E a" .
    show ?thesis
    proof (cases "?E a = ?E b")
      case True
      then show ?thesis by (rule same)
    next
      case False
      with le have lt: "?E b < ?E a"
        by simp
      with float32_exponent_range[of a] have "?E b < 200"
        by simp
      from float32_exponent_upper[OF nz(2) this] neg have "- pow2 (?E b + 1) \<le> b"
        by simp
      from grid_ge_neg[OF _ this, of "?E b - 23"] have 1: "- pow2 (?E b + 1) \<le> ?N b"
        by (simp add: N)
      from lt float32_exponent_range[of b] have "- 126 < ?E a"
        by simp
      from float32_exponent_lower[OF nz(1) this] neg assms have "a \<le> - pow2 (?E a)"
        by simp
      from grid_le_neg[OF _ this, of "?E a - 23"] have 2: "?N a \<le> - pow2 (?E a)"
        by (simp add: N)
      have "pow2 (?E b + 1) \<le> pow2 (?E a)"
        using lt by (intro pow2_mono) simp
      with 1 2 show ?thesis
        by linarith
    qed
  next
    case mid
    from grid_sign(1)[OF mid(1), of "?E a - 23"] grid_sign(2)[OF mid(2), of "?E b - 23"]
    show ?thesis
      by (simp add: N)
  qed
qed

lemma float32_nearest_0: "float32_nearest 0 = 0"
  by (simp add: float32_nearest_def Let_def round_half_even_def)

lemma float32_of_real_alt:
  "float32_of_real v =
     (if pow2 128 \<le> float32_nearest v then PInf
      else if float32_nearest v \<le> - pow2 128 then NInf
      else Fin (float32_nearest v))"
  using pow2_pos[of 128]
  by (cases "v = 0") (simp_all add: float32_of_real_def Let_def float32_nearest_0)

lemma float32_of_real_mono:
  assumes "a \<le> b"
  shows "fl_le (float32_of_real a) (float32_of_real b)"
  using float32_nearest_mono[OF assms] pow2_pos[of 128]
  by (simp add: float32_of_real_alt)

lemma float32_of_real_not_NaN: "float32_of_real v \<noteq> NaN"
  by (simp add: float32_of_real_alt)

lemma monotone_float32_cast: "monotone_cast float32_cast"
proof -
  have "fl_le (float32_cast a) (float32_cast b)" if "fl_le a b" for a b
  proof (cases a)
    case (Fin x)
    show ?thesis
    proof (cases b)
      case (Fin y)
      with \<open>a = Fin x\<close> that show ?thesis
        by (simp add: float32_cast_def float32_of_real_mono)
    next
      case PInf
      with \<open>a = Fin x\<close> show ?thesis
        using float32_of_real_not_NaN[of x]
        by (cases "float32_of_real x") (simp_all add: float32_cast_def)
    qed (use \<open>a = Fin x\<close> that in simp_all)
  next
    case NInf
    with that show ?thesis
      using float32_of_real_not_NaN
      by (cases b; cases "float32_cast b") (auto simp: float32_cast_def)
  next
    case PInf
    with that show ?thesis
      by (cases b) (simp_all add: float32_cast_def)
  next
    case NaN
    with that show ?thesis
      by simp
  qed
  then show ?thesis
    by (simp add: monotone_cast_def float32_cast_def)
qed

lemma monotone_float64_cast: "monotone_cast float64_cast"
  by (simp add: monotone_cast_def float64_cast_def)

text \<open>
  Claim C4, as amended. For every hand pose frame of 45 values, of an element type whose
  conversion keeps the order of values and keeps NaN (double and single precision are such
  types, see \<open>monotone_float64_cast\<close> and \<open>monotone_float32_cast\<close>), the engine returns (it
  does not raise, however far out of range the input is) a frame of 45 values such that,
  for each of the 15 joint entries of the layout and each of its 3 degrees of freedom, the
  table declares an interval for the (joint type, degree of freedom) pair and, whenever the
  input value is not NaN (infinite inputs included), the output value lies within the
  closed interval whose bounds are the declared bounds converted to the frame's element
  type; an input NaN stays NaN. On a double-precision frame the bounds are the declared
  ones.
\<close>

theorem constraints_within_cast_limits:
  assumes "length frame = 45" "monotone_cast cast"
  shows "\<exists>out. apply_anatomical_constraints_to_frame_as cast frame = Inr out \<and> length out = 45
           \<and> (\<forall>(finger_name, joints)\<in>set finger_joint_mapping.
                \<forall>(joint_type, start_idx, end_idx)\<in>set joints. \<forall>d<3.
                  \<exists>lo hi. declared_interval finger_name joint_type d = Some (lo, hi)
                     \<and> (if isnan (frame ! (start_idx + d)) then isnan (out ! (start_idx + d))
                         else in_interval (out ! (start_idx + d)) (cast lo, cast hi)))"
proof -
  let ?out = "map2 (clip_by cast) dof_keys frame"
  have eq: "apply_anatomical_constraints_to_frame_as cast frame = Inr ?out"
    by (rule frame_as_char[OF assms(1)])
  have len: "length ?out = 45"
    using assms(1) by (simp add: length_dof_keys)
  have nan: "cast NaN = NaN"
    using assms(2) by (simp add: monotone_cast_def)
  have lim: "\<exists>lo hi. declared_interval finger_name joint_type d = Some (lo, hi)
       \<and> (if isnan (frame ! (start_idx + d)) then isnan (?out ! (start_idx + d))
           else in_interval (?out ! (start_idx + d)) (cast lo, cast hi))"
    if f: "(finger_name, joints) \<in> set finger_joint_mapping"
      and j: "(joint_type, start_idx, end_idx) \<in> set joints" and d: "d < 3"
    for finger_name joints joint_type start_idx end_idx d
  proof -
    from joint_layout f j d
    have i: "start_idx + d < 45"
      and k: "dof_keys ! (start_idx + d) = declared_key finger_name joint_type d"
      and t: "declared_key finger_name joint_type d \<in> fst ` set hand_joint_limits"
      by fastforce+
    from t obtain lo hi
      where iv: "map_of hand_joint_limits (declared_key finger_name joint_type d) = Some (lo, hi)"
      by (metis domD dom_map_of_conv_image_fst surj_pair)
    have o: "?out ! (start_idx + d)
               = clip_by cast (declared_key finger_name joint_type d) (frame ! (start_idx + d))"
      using frame_out_nth[OF assms(1) i] k by simp
    show ?thesis
    proof (cases "isnan (frame ! (start_idx + d))")
      case True
      then show ?thesis
        by (simp add: o declared_interval_def iv isnan_def clip_by_NaN nan)
    next
      case False
      then have "in_interval (?out ! (start_idx + d)) (cast lo, cast hi)"
        unfolding o by (intro clip_by_in_interval[OF assms(2) iv]) (simp add: isnan_def)
      with False show ?thesis
        by (simp add: declared_interval_def iv)
    qed
  qed
  from eq len lim show ?thesis
    by blast
qed

theorem constraints_within_cast_limits_witness:
  "\<exists>out. apply_anatomical_constraints_to_frame_as float32_cast (NaN # replicate 44 (Fin 2))
           = Inr out
      \<and> length out = 45 \<and> isnan (out ! 0)
      \<and> in_interval (out ! 9) (Fin 0, Fin (13170115 / 8388608))"
proof -
  let ?fr = "NaN # replicate 44 (Fin 2)"
  have l: "length ?fr = 45"
    by simp
  from constraints_within_cast_limits[OF l monotone_float32_cast]
  obtain out where o: "apply_anatomical_constraints_to_frame_as float32_cast ?fr = Inr out"
    "length out = 45"
    and b: "\<forall>(finger_name, joints)\<in>set finger_joint_mapping.
              \<forall>(joint_type, start_idx, end_idx)\<in>set joints. \<forall>d<3.
                \<exists>lo hi. declared_interval finger_name joint_type d = Some (lo, hi)
                   \<and> (if isnan (?fr ! (start_idx + d)) then isnan (out ! (start_idx + d))
                       else in_interval (out ! (start_idx + d))
                              (float32_cast lo, float32_cast hi))"
    by blast
  have t: "(''thumb'', [(''cmc'', (0, 3)), (''mcp'', (3, 6)), (''ip'', (6, 9))])
             \<in> set finger_joint_mapping"
    and i: "(''index'', [(''mcp'', (9, 12)), (''pip'', (12, 15)), (''dip'', (15, 18))])
             \<in> set finger_joint_mapping"
    by (simp_all add: finger_joint_mapping_def)
  from bspec[OF b t]
  have jt: "\<forall>(joint_type, start_idx, end_idx)\<in>set [(''cmc'', (0, 3)), (''mcp'', (3, 6)), (''ip'', (6, 9))].
             \<forall>d<3. \<exists>lo hi. declared_interval ''thumb'' joint_type d = Some (lo, hi)
                   \<and> (if isnan (?fr ! (start_idx + d)) then isnan (out ! (start_idx + d))
                       else in_interval (out ! (start_idx + d))
                              (float32_cast lo, float32_cast hi))"
    by simp
  from bspec[OF b i]
  have ji: "\<forall>(joint_type, start_idx, end_idx)\<in>set [(''mcp'', (9, 12)), (''pip'', (12, 15)), (''dip'', (15, 18))].
             \<forall>d<3. \<exists>lo hi. declared_interval ''index'' joint_type d = Some (lo, hi)
                   \<and> (if isnan (?fr ! (start_idx + d)) then isnan (out ! (start_idx + d))
                       else in_interval (out ! (start_idx + d))
                              (float32_cast lo, float32_cast hi))"
    by simp
  have i9: "declared_interval ''index'' ''mcp'' 0
              = Some (Fin 0, Fin (7070651414971679 / 4503599627370496))"
    by (simp add: declared_interval_def declared_key_def hand_joint_limits_def)
  have c: "float32_cast (Fin 0) = Fin 0"
    "float32_cast (Fin (7070651414971679 / 4503599627370496)) = Fin (13170115 / 8388608)"
    by code_simp+
  from jt have n0: "isnan (out ! 0)"
    by (auto simp: all_less_3 isnan_def)
  from ji have "in_interval (out ! 9)
          (float32_cast (Fin 0), float32_cast (Fin (7070651414971679 / 4503599627370496)))"
    by (simp add: all_less_3 i9 isnan_def)
  then have n9: "in_interval (out ! 9) (Fin 0, Fin (13170115 / 8388608))"
    by (simp only: c)
  from o n0 n9 show ?thesis
    by blast
qed

text \<open>
  The claim as stated (every output value lies within its declared interval, for every
  frame) fails twice. On a frame with a NaN, \<open>np.clip\<close> returns NaN for NaN, and NaN is in
  no interval. On a single-precision frame, a value above the \<open>mcp_flexion\<close> bound is stored
  as the single nearest to the double \<open>1.57\<close>, which is \<open>13170115 / 2 ^ 23\<close> and lies above
  it.
\<close>

theorem constraints_within_limits_counterexample:
  "apply_anatomical_constraints_to_frame_as float64_cast (NaN # replicate 44 (Fin 0))
     = Inr (NaN # replicate 44 (Fin 0))
   \<and> declared_interval ''thumb'' ''cmc'' 0
     = Some (Fin (- (1 / 2)), Fin (8106479329266893 / 9007199254740992))
   \<and> \<not> in_interval ((NaN # replicate 44 (Fin 0)) ! 0)
         (Fin (- (1 / 2)), Fin (8106479329266893 / 9007199254740992))
   \<and> map_sum id (\<lambda>out. out ! 9)
       (apply_anatomical_constraints_to_frame_as float32_cast (replicate 45 (Fin 2)))
     = Inr (Fin (13170115 / 8388608))
   \<and> declared_interval ''index'' ''mcp'' 0
     = Some (Fin 0, Fin (7070651414971679 / 4503599627370496))
   \<and> \<not> in_interval (Fin (13170115 / 8388608))
         (Fin 0, Fin (7070651414971679 / 4503599627370496))"
proof (intro conjI)
  show "apply_anatomical_constraints_to_frame_as float64_cast (NaN # replicate 44 (Fin 0))
          = Inr (NaN # replicate 44 (Fin 0))"
    by code_simp
  show "declared_interval ''thumb'' ''cmc'' 0
          = Some (Fin (- (1 / 2)), Fin (8106479329266893 / 9007199254740992))"
    by (simp add: declared_interval_def declared_key_def hand_joint_limits_def)
  show "\<not> in_interval ((NaN # replicate 44 (Fin 0)) ! 0)
          (Fin (- (1 / 2)), Fin (8106479329266893 / 9007199254740992))"
    by (simp add: in_interval_def)
  show "map_sum id (\<lambda>out. out ! 9)
          (apply_anatomical_constraints_to_frame_as float32_cast (replicate 45 (Fin 2)))
        = Inr (Fin (13170115 / 8388608))"
    by code_simp
  show "declared_interval ''index'' ''mcp'' 0
          = Some (Fin 0, Fin (7070651414971679 / 4503599627370496))"
    by (simp add: declared_interval_def declared_key_def hand_joint_limits_def)
  show "\<not> in_interval (Fin (13170115 / 8388608))
          (Fin 0, Fin (7070651414971679 / 4503599627370496))"
    by (simp add: in_interval_def)
qed

text \<open>
  Claim C5. The engine is idempotent: on every hand pose frame of 45 values it returns a
  frame, and applied to that frame it returns the same frame again. (A NaN entry stays NaN
  in both passes; the two results are the same arrays, entry by entry.)
\<close>

theorem constraints_idempotent:
  assumes "length frame = 45"
  shows "\<exists>out. apply_anatomical_constraints_to_frame frame = Inr out
           \<and> apply_anatomical_constraints_to_frame out = Inr out"
proof -
  let ?out = "map2 (clip_by float64_cast) dof_keys frame"
  have eq: "apply_anatomical_constraints_to_frame frame = Inr ?out"
    by (rule frame_char[OF assms])
  have len: "length ?out = 45"
    using assms by (simp add: length_dof_keys)
  have "map2 (clip_by float64_cast) dof_keys ?out = ?out"
    using assms by (intro nth_equalityI) (simp_all add: length_dof_keys clip_by_idem)
  with frame_char[OF len] have "apply_anatomical_constraints_to_frame ?out = Inr ?out"
    by simp
  with eq show ?thesis
    by blast
qed

theorem constraints_idempotent_witness:
  "\<exists>out. apply_anatomical_constraints_to_frame (NaN # PInf # replicate 43 (Fin 2)) = Inr out
      \<and> apply_anatomical_constraints_to_frame out = Inr out"
  using constraints_idempotent[of "NaN # PInf # replicate 43 (Fin 2)"] by simp

subsection \<open>The engine on the store\<close>

lemma clip_dof_length:
  "clip_dof cast s e d key pose = Inr pose' \<Longrightarrow> length pose' = length pose"
  by (auto simp: clip_dof_def split: if_splits sum.splits)

lemma clip_joint_length:
  "clip_joint cast s e k0 k1 k2 pose = Inr pose' \<Longrightarrow> length pose' = length pose"
  by (auto simp: clip_joint_def bind_err_def split: sum.splits dest!: clip_dof_length)

lemma constrain_joint_length:
  "constrain_joint cast finger_name joint pose = Inr pose' \<Longrightarrow> length pose' = length pose"
  by (auto simp: constrain_joint_def split: prod.splits if_splits dest: clip_joint_length)

lemma clip_dof_st_refines:
  assumes "cp = \<lparr>base = length h, offset = 0, len = length buf\<rparr>"
  shows "clip_dof_st (slice_view cp s e) d key (h @ [buf]) = lift_buf h (clip_dof float64_cast s e d key buf)"
proof (cases "d < slice_len (length buf) s e")
  case True
  then have s: "min s (length buf) = s"
    by (simp add: slice_len_def min_def split: if_splits)
  have l: "d < len (slice_view cp s e)"
    using True by (simp add: slice_view_def assms slice_len_def)
  show ?thesis
    using True l
    by (simp add: clip_dof_st_def clip_dof_def float64_cast_def get_item_def set_item_def
        bind_err_def lift_buf_def
        slice_view_def assms s split: sum.splits prod.splits)
next
  case False
  then have "\<not> d < len (slice_view cp s e)"
    by (simp add: slice_view_def assms slice_len_def)
  with False show ?thesis
    by (simp add: clip_dof_st_def clip_dof_def get_item_def bind_err_def lift_buf_def)
qed

lemma clip_joint_st_refines:
  assumes "cp = \<lparr>base = length h, offset = 0, len = length buf\<rparr>"
  shows "clip_joint_st (slice_view cp s e) k0 k1 k2 (h @ [buf])
           = lift_buf h (clip_joint float64_cast s e k0 k1 k2 buf)"
proof -
  have step: "clip_dof_st (slice_view cp s e) d key (h @ [b]) = lift_buf h (clip_dof float64_cast s e d key b)"
    if "length b = length buf" for d key b
    using clip_dof_st_refines[of cp h b s e d key] that assms by simp
  show ?thesis
  proof (cases "clip_dof float64_cast s e 0 k0 buf")
    case (Inl er)
    then show ?thesis
      by (simp add: clip_joint_st_def clip_joint_def bind_err_def step lift_buf_def)
  next
    case (Inr p0)
    note p0 = this clip_dof_length[OF this]
    show ?thesis
    proof (cases "clip_dof float64_cast s e 1 k1 p0")
      case (Inl er)
      then show ?thesis
        using p0 by (simp add: clip_joint_st_def clip_joint_def bind_err_def step lift_buf_def)
    next
      case (Inr p1)
      note p1 = this clip_dof_length[OF this]
      show ?thesis
        using p0 p1 by (simp add: clip_joint_st_def clip_joint_def bind_err_def step lift_buf_def)
    qed
  qed
qed

lemma assign_view_self:
  assumes "cp = \<lparr>base = length h, offset = 0, len = length buf\<rparr>"
  shows "assign_view (h @ [buf]) (slice_view cp s e) (slice_view cp s e) = Inr (h @ [buf])"
proof -
  let ?o = "min s (length buf)" and ?l = "min e (length buf) - min s (length buf)"
  have "take ?o buf @ take ?l (drop ?o buf) @ drop (?o + ?l) buf = buf"
    by (metis append_take_drop_id drop_drop add.commute)
  moreover have "length (take ?l (drop ?o buf)) = ?l"
    by simp
  ultimately show ?thesis
    by (simp add: assign_view_def read_view_def slice_view_def assms Let_def)
qed

lemma constrain_joint_st_refines:
  assumes "cp = \<lparr>base = length h, offset = 0, len = length buf\<rparr>"
  shows "constrain_joint_st cp finger_name joint (h @ [buf])
           = lift_buf h (constrain_joint float64_cast finger_name joint buf)"
proof -
  obtain jt s e where j: "joint = (jt, s, e)"
    by (cases joint)
  have a: "bind_err (lift_buf h r) (\<lambda>h'. assign_view h' (slice_view cp s e) (slice_view cp s e))
             = lift_buf h r"
    if "\<And>b. r = Inr b \<Longrightarrow> length b = length buf" for r
  proof (cases r)
    case (Inl er)
    then show ?thesis by (simp add: lift_buf_def bind_err_def)
  next
    case (Inr b)
    with that have "length b = length buf" by simp
    then have "cp = \<lparr>base = length h, offset = 0, len = length b\<rparr>"
      using assms by simp
    from assign_view_self[OF this] Inr show ?thesis
      by (simp add: lift_buf_def bind_err_def)
  qed
  have b: "bind_err (Inr (h @ [buf])) (\<lambda>h'. assign_view h' (slice_view cp s e) (slice_view cp s e))
             = lift_buf h (Inr buf)"
    using a[of "Inr buf"] by (simp add: lift_buf_def)
  show ?thesis
    unfolding j constrain_joint_st_def constrain_joint_def prod.case Let_def
    by (simp add: clip_joint_st_refines[OF assms] a clip_joint_length b)
qed

lemma fold_joints_st_refines:
  assumes "cp = \<lparr>base = length h, offset = 0, len = length buf\<rparr>"
  shows "fold_err (constrain_joint_st cp finger_name) joints (h @ [buf])
           = lift_buf h (fold_err (constrain_joint float64_cast finger_name) joints buf)"
  using assms
proof (induction joints arbitrary: buf)
  case Nil
  then show ?case by (simp add: lift_buf_def)
next
  case (Cons j js)
  show ?case
  proof (cases "constrain_joint float64_cast finger_name j buf")
    case (Inl er)
    then show ?thesis
      using constrain_joint_st_refines[OF Cons.prems, of finger_name j]
      by (simp add: lift_buf_def)
  next
    case (Inr b)
    from constrain_joint_length[OF Inr] Cons.prems
    have "cp = \<lparr>base = length h, offset = 0, len = length b\<rparr>"
      by simp
    from Cons.IH[OF this] show ?thesis
      using constrain_joint_st_refines[OF Cons.prems, of finger_name j] Inr
      by (simp add: lift_buf_def)
  qed
qed

lemma fold_joints_length:
  "fold_err (constrain_joint cast finger_name) joints buf = Inr b \<Longrightarrow> length b = length buf"
proof (induction joints arbitrary: buf)
  case Nil
  then show ?case by simp
next
  case (Cons j js)
  then show ?case
    by (auto split: sum.splits dest!: constrain_joint_length)
qed

lemma fold_fingers_st_refines:
  assumes "cp = \<lparr>base = length h, offset = 0, len = length buf\<rparr>"
  shows "fold_err (\<lambda>(finger_name, joints). fold_err (constrain_joint_st cp finger_name) joints)
            fingers (h @ [buf])
           = lift_buf h (fold_err (\<lambda>(finger_name, joints).
                fold_err (constrain_joint float64_cast finger_name) joints) fingers buf)"
  using assms
proof (induction fingers arbitrary: buf)
  case Nil
  then show ?case by (simp add: lift_buf_def)
next
  case (Cons f fs)
  obtain fn js where f: "f = (fn, js)"
    by (cases f)
  show ?case
  proof (cases "fold_err (constrain_joint float64_cast fn) js buf")
    case (Inl er)
    then show ?thesis
      using fold_joints_st_refines[OF Cons.prems, of fn js]
      by (simp add: lift_buf_def f)
  next
    case (Inr b)
    from fold_joints_length[OF Inr] Cons.prems
    have "cp = \<lparr>base = length h, offset = 0, len = length b\<rparr>"
      by simp
    from Cons.IH[OF this] show ?thesis
      using fold_joints_st_refines[OF Cons.prems, of fn js] Inr
      by (simp add: lift_buf_def f)
  qed
qed

lemma fold_fingers_length:
  "fold_err (\<lambda>(finger_name, joints). fold_err (constrain_joint cast finger_name) joints) fingers buf
     = Inr b \<Longrightarrow> length b = length buf"
proof (induction fingers arbitrary: buf)
  case Nil
  then show ?case by simp
next
  case (Cons f fs)
  then show ?case
    by (auto split: sum.splits prod.splits dest!: fold_joints_length)
qed

lemma frame_length:
  "apply_anatomical_constraints_to_frame frame = Inr out \<Longrightarrow> length out = length frame"
  unfolding apply_anatomical_constraints_to_frame_def apply_anatomical_constraints_to_frame_as_def
  by (rule fold_fingers_length)

lemma apply_st_refines:
  assumes "valid_view h v"
  shows "apply_anatomical_constraints_to_frame_st h v =
           (case apply_anatomical_constraints_to_frame (read_view h v) of
              Inl e \<Rightarrow> Inl e
            | Inr out \<Rightarrow> Inr (h @ [out], \<lparr>base = length h, offset = 0, len = len v\<rparr>))"
proof -
  have l: "length (read_view h v) = len v"
    using assms by (auto simp: valid_view_def read_view_def)
  then have "\<lparr>base = length h, offset = 0, len = len v\<rparr>
               = \<lparr>base = length h, offset = 0, len = length (read_view h v)\<rparr>"
    by simp
  from fold_fingers_st_refines[OF this, of finger_joint_mapping]
  show ?thesis
    by (simp add: apply_anatomical_constraints_to_frame_st_def np_copy_def bind_err_def
        apply_anatomical_constraints_to_frame_def apply_anatomical_constraints_to_frame_as_def
        lift_buf_def split: sum.splits)
qed

text \<open>
  Claim C9. On the store: called on a frame of 45 values (a view \<open>v\<close> on some buffer of the
  store \<open>h\<close>), the engine returns a new array, held in a buffer allocated by the call; every
  buffer that existed before the call is unchanged, so the input frame reads as before; and
  the new array holds the values the engine computes from the input frame.
\<close>

theorem constraints_pure_transform:
  assumes "valid_view h v" "len v = 45"
  shows "\<exists>h' out. apply_anatomical_constraints_to_frame_st h v = Inr (h', out)
           \<and> base out = length h \<and> valid_view h' out
           \<and> take (length h) h' = h \<and> read_view h' v = read_view h v
           \<and> apply_anatomical_constraints_to_frame (read_view h v) = Inr (read_view h' out)"
proof -
  have l: "length (read_view h v) = 45"
    using assms by (auto simp: valid_view_def read_view_def)
  let ?out = "map2 (clip_by float64_cast) dof_keys (read_view h v)"
  let ?cp = "\<lparr>base = length h, offset = 0, len = len v\<rparr>"
  have pure: "apply_anatomical_constraints_to_frame (read_view h v) = Inr ?out"
    by (rule frame_char[OF l])
  have lo: "length ?out = 45"
    using l by (simp add: length_dof_keys)
  have st: "apply_anatomical_constraints_to_frame_st h v = Inr (h @ [?out], ?cp)"
    by (simp add: apply_st_refines[OF assms(1)] pure)
  have b: "base v < length h"
    using assms(1) by (simp add: valid_view_def)
  have r1: "read_view (h @ [?out]) v = read_view h v"
    using b by (simp add: read_view_def nth_append)
  have r2: "read_view (h @ [?out]) ?cp = ?out"
    using lo assms(2) by (simp add: read_view_def)
  have vv: "valid_view (h @ [?out]) ?cp"
    using lo assms(2) by (simp add: valid_view_def)
  show ?thesis
    using st pure r1 r2 vv by simp
qed

theorem constraints_pure_transform_witness:
  "\<exists>h' out. apply_anatomical_constraints_to_frame_st [replicate 90 (Fin 2)]
                \<lparr>base = 0, offset = 45, len = 45\<rparr> = Inr (h', out)
      \<and> base out = 1 \<and> take 1 h' = [replicate 90 (Fin 2)]
      \<and> read_view h' \<lparr>base = 0, offset = 45, len = 45\<rparr> = replicate 45 (Fin 2)"
proof -
  let ?h = "[replicate 90 (Fin 2)]" and ?v = "\<lparr>base = 0, offset = 45, len = 45\<rparr>"
  have v: "valid_view ?h ?v" and l: "len ?v = 45"
    by (simp_all add: valid_view_def)
  have r: "read_view ?h ?v = replicate 45 (Fin 2)"
    by (simp add: read_view_def)
  from constraints_pure_transform[OF v l] show ?thesis
    unfolding r by auto
qed

section \<open>Verification: the Temporal Smoother\<close>

lemma length_column: "length (column a i) = nrows a"
  by (simp add: column_def nrows_def)

lemma assign_column_shape:
  assumes "is_ndarray a" "assign_column a i c = Inr b"
  shows "is_ndarray b \<and> nrows b = nrows a \<and> ncols b = ncols a"
proof (cases "length c = nrows a")
  case True
  with assms(2) have b: "b = a\<lparr>rows := map2 (\<lambda>r x. r[i := x]) (rows a) c\<rparr>"
    by (simp add: assign_column_def)
  have "list_all (\<lambda>r. length r = ncols a) (map2 (\<lambda>r x. r[i := x]) (rows a) c)"
    using assms(1) by (auto simp: is_ndarray_def list_all_iff dest: set_zip_leftD)
  then show ?thesis
    using True by (simp add: b is_ndarray_def nrows_def)
next
  case False
  with assms(2) have b: "b = a\<lparr>rows := map (\<lambda>r. r[i := hd c]) (rows a)\<rparr>"
    by (simp add: assign_column_def split: if_splits)
  show ?thesis
    using assms(1) by (simp add: b is_ndarray_def nrows_def list_all_iff)
qed

lemma smooth_fold_shape:
  assumes "is_ndarray a"
    and "fold_err (\<lambda>i smoothed. bind_err (gf sigma (column smoothed i)) (assign_column smoothed i))
           js a = Inr b"
  shows "is_ndarray b \<and> nrows b = nrows a \<and> ncols b = ncols a"
  using assms
proof (induction js arbitrary: a)
  case Nil
  then show ?case by simp
next
  case (Cons j js)
  from Cons.prems(2) obtain c a' where c: "gf sigma (column a j) = Inr c"
    and a': "assign_column a j c = Inr a'"
    and rest: "fold_err (\<lambda>i smoothed. bind_err (gf sigma (column smoothed i))
                 (assign_column smoothed i)) js a' = Inr b"
    by (auto simp: bind_err_def split: sum.splits)
  from assign_column_shape[OF Cons.prems(1) a']
  have s: "is_ndarray a'" "nrows a' = nrows a" "ncols a' = ncols a"
    by simp_all
  from Cons.IH[OF s(1) rest] s show ?case
    by simp
qed

lemma smooth_step_shape:
  assumes "is_ndarray a" "smooth_step gf sigma a = Inr b"
  shows "is_ndarray b \<and> nrows b = nrows a \<and> ncols b = ncols a"
proof (cases "nrows a > 1")
  case True
  with assms(2) show ?thesis
    using smooth_fold_shape[OF assms(1), of gf sigma "[0..<ncols a]" b]
    by (simp add: smooth_step_def)
next
  case False
  with assms show ?thesis
    by (simp add: smooth_step_def)
qed

lemma smooth_fold_returns:
  assumes "is_ndarray a" "filter_contract gf" "0 < sigma"
  shows "\<exists>b. fold_err (\<lambda>i smoothed. bind_err (gf sigma (column smoothed i))
                 (assign_column smoothed i)) js a = Inr b"
  using assms(1)
proof (induction js arbitrary: a)
  case Nil
  then show ?case by simp
next
  case (Cons j js)
  from assms(2,3) obtain c where c: "gf sigma (column a j) = Inr c"
    and lc: "length c = length (column a j)"
    unfolding filter_contract_def by blast
  let ?a' = "a\<lparr>rows := map2 (\<lambda>r x. r[j := x]) (rows a) c\<rparr>"
  have a': "assign_column a j c = Inr ?a'"
    using lc by (simp add: assign_column_def length_column)
  from assign_column_shape[OF Cons.prems a'] have "is_ndarray ?a'"
    by simp
  from Cons.IH[OF this] show ?case
    by (simp add: c a' bind_err_def)
qed

lemma shift_filter_contract: "filter_contract shift_filter"
  by (auto simp: filter_contract_def shift_filter_def)

text \<open>
  Claim C8. On a hand pose sequence with fewer than 2 frames the smoothing step of
  \<open>_process_hand_pose_data\<close> returns its input unchanged, whatever the filter does. On a
  well-formed sequence of \<open>N \<ge> 2\<close> frames, with \<open>sigma > 0\<close> and a filter that keeps the
  shape of a channel (the contract of \<open>gaussian_filter1d\<close>), the smoothing step returns a
  well-formed sequence with the same number of frames and the same number of channels
  (45 for a hand pose sequence).
\<close>

theorem smoother_shape:
  "(nrows a < 2 \<longrightarrow> smooth_step gf sigma a = Inr a)
   \<and> (is_ndarray a \<and> 2 \<le> nrows a \<and> 0 < sigma \<and> filter_contract gf \<longrightarrow>
        (\<exists>b. smooth_step gf sigma a = Inr b \<and> is_ndarray b
            \<and> nrows b = nrows a \<and> ncols b = ncols a))"
proof (intro conjI impI)
  assume "nrows a < 2"
  then show "smooth_step gf sigma a = Inr a"
    by (simp add: smooth_step_def)
next
  assume h: "is_ndarray a \<and> 2 \<le> nrows a \<and> 0 < sigma \<and> filter_contract gf"
  then obtain b where b: "smooth_step gf sigma a = Inr b"
    using smooth_fold_returns[of a gf sigma "[0..<ncols a]"]
    by (auto simp: smooth_step_def)
  with smooth_step_shape[of a gf sigma b] h
  show "\<exists>b. smooth_step gf sigma a = Inr b \<and> is_ndarray b
            \<and> nrows b = nrows a \<and> ncols b = ncols a"
    by simp
qed

theorem smoother_shape_witness:
  "smooth_step shift_filter (3 / 10) \<lparr>ncols = 2, rows = [[1, 2 :: int]]\<rparr>
     = Inr \<lparr>ncols = 2, rows = [[1, 2]]\<rparr>
   \<and> (\<exists>b. smooth_step shift_filter (3 / 10) \<lparr>ncols = 2, rows = [[1, 2], [3, 4], [5, 6 :: int]]\<rparr> = Inr b
          \<and> is_ndarray b \<and> nrows b = 3 \<and> ncols b = 2)"
proof -
  let ?a1 = "\<lparr>ncols = 2, rows = [[1, 2 :: int]]\<rparr>"
  let ?a3 = "\<lparr>ncols = 2, rows = [[1, 2], [3, 4], [5, 6 :: int]]\<rparr>"
  have n1: "nrows ?a1 < 2" and n3: "2 \<le> nrows ?a3" "nrows ?a3 = 3" and w: "is_ndarray ?a3"
    by (simp_all add: nrows_def is_ndarray_def)
  from smoother_shape[of ?a1 shift_filter "3 / 10"] n1
  have 1: "smooth_step shift_filter (3 / 10) ?a1 = Inr ?a1"
    by blast
  from smoother_shape[of ?a3 shift_filter "3 / 10"] n3 w shift_filter_contract
  have "\<exists>b. smooth_step shift_filter (3 / 10) ?a3 = Inr b \<and> is_ndarray b
            \<and> nrows b = 3 \<and> ncols b = 2"
    by (simp del: ex_simps) blast
  with 1 show ?thesis
    by blast
qed

section \<open>Verification: the Body Model Evaluator\<close>

subsection \<open>Frames the engine accepts\<close>

lemma fold_err_snoc:
  "fold_err f (xs @ [x]) s = (case fold_err f xs s of Inl e \<Rightarrow> Inl e | Inr t \<Rightarrow> f x t)"
  by (induction xs arbitrary: s) (auto split: sum.splits)

lemma clip_dof_needs:
  assumes "clip_dof cast s e d key pose = Inr p"
  shows "s + d < length pose"
proof -
  from assms have "d < slice_len (length pose) s e"
    by (simp add: clip_dof_def split: if_splits)
  then show ?thesis
    by (simp add: slice_len_def min_def split: if_splits)
qed

lemma clip_joint_needs:
  assumes "clip_joint cast s e k0 k1 k2 pose = Inr p"
  shows "s + 3 \<le> length pose"
proof -
  from assms obtain p0 p1 where 0: "clip_dof cast s e 0 k0 pose = Inr p0"
    and 1: "clip_dof cast s e 1 k1 p0 = Inr p1" and 2: "clip_dof cast s e 2 k2 p1 = Inr p"
    by (auto simp: clip_joint_def bind_err_def split: sum.splits)
  from clip_dof_needs[OF 2] clip_dof_length[OF 0] clip_dof_length[OF 1]
  show ?thesis
    by simp
qed

lemma frame_needs_45:
  assumes "apply_anatomical_constraints_to_frame frame = Inr out"
  shows "45 \<le> length frame"
proof -
  let ?F = "\<lambda>(finger_name, joints). fold_err (constrain_joint float64_cast finger_name) joints"
  obtain fs js where m: "finger_joint_mapping = fs @ [(''pinky'', js @ [(''dip'', (42, 45))])]"
    by (simp add: finger_joint_mapping_def)
  have "apply_anatomical_constraints_to_frame frame =
          (case fold_err ?F fs frame of
             Inl e \<Rightarrow> Inl e
           | Inr t \<Rightarrow> fold_err (constrain_joint float64_cast ''pinky'') (js @ [(''dip'', (42, 45))]) t)"
    unfolding apply_anatomical_constraints_to_frame_def apply_anatomical_constraints_to_frame_as_def m
    by (subst fold_err_snoc) (simp split: sum.splits)
  with assms obtain t where t: "fold_err ?F fs frame = Inr t"
    and p: "fold_err (constrain_joint float64_cast ''pinky'') (js @ [(''dip'', (42, 45))]) t = Inr out"
    by (auto split: sum.splits)
  have "fold_err (constrain_joint float64_cast ''pinky'') (js @ [(''dip'', (42, 45))]) t =
          (case fold_err (constrain_joint float64_cast ''pinky'') js t of
             Inl e \<Rightarrow> Inl e
           | Inr t' \<Rightarrow> constrain_joint float64_cast ''pinky'' (''dip'', (42, 45)) t')"
    by (rule fold_err_snoc)
  with p obtain t' where t': "fold_err (constrain_joint float64_cast ''pinky'') js t = Inr t'"
    and d: "constrain_joint float64_cast ''pinky'' (''dip'', (42, 45)) t' = Inr out"
    by (auto split: sum.splits)
  from d have "clip_joint float64_cast 42 45 ''dip_flexion'' ''dip_side_flex'' ''dip_twist'' t' = Inr out"
    by (simp add: constrain_joint_def)
  from clip_joint_needs[OF this] fold_joints_length[OF t'] fold_fingers_length[OF t]
  show ?thesis
    by simp
qed

lemma dof_keys_in_table: "set dof_keys \<subseteq> fst ` set hand_joint_limits"
  unfolding hand_joint_limits_keys by (simp add: dof_keys_explicit)

lemma frame_finite_or_nan:
  assumes "apply_anatomical_constraints_to_frame frame = Inr out" "length frame \<le> 45"
  shows "length out = 45 \<and> (\<forall>x\<in>set out. x = NaN \<or> isfinite x)"
proof -
  from frame_needs_45[OF assms(1)] assms(2) have l: "length frame = 45"
    by simp
  from frame_char[OF l] assms(1) have out: "out = map2 (clip_by float64_cast) dof_keys frame"
    by simp
  have "x = NaN \<or> isfinite x" if "x \<in> set out" for x
  proof -
    from that obtain k v where kv: "(k, v) \<in> set (zip dof_keys frame)" and x: "x = clip_by float64_cast k v"
      unfolding out by auto
    from kv have "k \<in> set dof_keys"
      by (rule set_zip_leftD)
    with dof_keys_in_table obtain iv where "map_of hand_joint_limits k = Some iv"
      by (metis domD dom_map_of_conv_image_fst subsetD)
    from clip_by_finite_or_nan[OF this] show ?thesis
      by (simp add: x)
  qed
  then show ?thesis
    using l by (simp add: out length_dof_keys)
qed

subsection \<open>The processing of a hand pose sequence\<close>

lemma constrain_fold:
  assumes "\<forall>i\<in>set js. i < n \<and> length (rows s ! i) = ncols c0"
    and "nrows c0 = n"
    and "fold_err (\<lambda>i constrained.
            bind_err (apply_anatomical_constraints_to_frame (rows s ! i))
              (assign_row constrained i)) js c0 = Inr c"
  shows "nrows c = n \<and> ncols c = ncols c0
         \<and> (\<forall>i\<in>set js. apply_anatomical_constraints_to_frame (rows s ! i) = Inr (rows c ! i))
         \<and> (\<forall>i. i \<notin> set js \<longrightarrow> rows c ! i = rows c0 ! i)"
  using assms
proof (induction js arbitrary: c0)
  case Nil
  then show ?case by simp
next
  case (Cons j js)
  let ?step = "\<lambda>i constrained.
            bind_err (apply_anatomical_constraints_to_frame (rows s ! i))
              (assign_row constrained i)"
  from Cons.prems(3) obtain out c1
    where out: "apply_anatomical_constraints_to_frame (rows s ! j) = Inr out"
      and c1: "assign_row c0 j out = Inr c1"
      and rest: "fold_err ?step js c1 = Inr c"
    by (auto simp: bind_err_def split: sum.splits)
  from Cons.prems(1) have j: "j < n" "length (rows s ! j) = ncols c0"
    by simp_all
  from frame_length[OF out] j have "length out = ncols c0"
    by simp
  with c1 have c1': "c1 = c0\<lparr>rows := (rows c0)[j := out]\<rparr>"
    by (simp add: assign_row_def)
  have p1: "\<forall>i\<in>set js. i < n \<and> length (rows s ! i) = ncols c1"
    using Cons.prems(1) by (simp add: c1')
  have p2: "nrows c1 = n"
    using Cons.prems(2) by (simp add: c1' nrows_def)
  from Cons.IH[OF p1 p2 rest]
  have ih: "nrows c = n" "ncols c = ncols c1"
    "\<forall>i\<in>set js. apply_anatomical_constraints_to_frame (rows s ! i) = Inr (rows c ! i)"
    "\<forall>i. i \<notin> set js \<longrightarrow> rows c ! i = rows c1 ! i"
    by simp_all
  have cj: "apply_anatomical_constraints_to_frame (rows s ! j) = Inr (rows c ! j)"
  proof (cases "j \<in> set js")
    case True
    with ih(3) show ?thesis by simp
  next
    case False
    with ih(4) have "rows c ! j = rows c1 ! j"
      by simp
    also have "\<dots> = out"
      using j(1) Cons.prems(2) by (simp add: c1' nrows_def)
    finally show ?thesis
      using out by simp
  qed
  show ?case
    using ih cj by (simp add: c1')
qed

lemma constrain_step_rows:
  assumes "is_ndarray s" "constrain_step s = Inr c"
  shows "nrows c = nrows s
         \<and> (\<forall>i<nrows s. apply_anatomical_constraints_to_frame (rows s ! i) = Inr (rows c ! i))"
proof -
  have 1: "\<forall>i\<in>set [0..<nrows s]. i < nrows s \<and> length (rows s ! i) = ncols (zeros_like s)"
    using assms(1) by (simp add: zeros_like_def nrows_def is_ndarray_nth)
  have 2: "nrows (zeros_like s) = nrows s"
    by (simp add: zeros_like_def nrows_def)
  from constrain_fold[OF 1 2 assms(2)[unfolded constrain_step_def]]
  show ?thesis
    by simp
qed

lemma process_rows:
  assumes "is_ndarray a" "ncols a \<le> 45" "process_hand_pose_data gf sigma a = Inr c"
    and "r \<in> set (rows c)"
  shows "ncols a = 45 \<and> length r = 45 \<and> (\<forall>x\<in>set r. x = NaN \<or> isfinite x)"
proof -
  from assms(3) obtain s where s: "smooth_step gf sigma a = Inr s" and c: "constrain_step s = Inr c"
    by (auto simp: process_hand_pose_data_def bind_err_def split: sum.splits)
  from smooth_step_shape[OF assms(1) s]
  have w: "is_ndarray s" and nc: "ncols s = ncols a"
    by simp_all
  from constrain_step_rows[OF w c]
  have n: "nrows c = nrows s"
    and ap: "\<forall>i<nrows s. apply_anatomical_constraints_to_frame (rows s ! i) = Inr (rows c ! i)"
    by simp_all
  from assms(4) obtain i where i: "i < nrows c" and r: "r = rows c ! i"
    by (auto simp: in_set_conv_nth nrows_def)
  from ap i n have e: "apply_anatomical_constraints_to_frame (rows s ! i) = Inr r"
    by (simp add: r)
  have li: "length (rows s ! i) = ncols a"
    using is_ndarray_nth[OF w, of i] i n nc by (simp add: nrows_def)
  with assms(2) have "length (rows s ! i) \<le> 45"
    by simp
  from frame_finite_or_nan[OF e this] frame_needs_45[OF e] li assms(2) show ?thesis
    by simp
qed

lemma process_nrows:
  assumes "is_ndarray a" "process_hand_pose_data gf sigma a = Inr c"
  shows "nrows c = nrows a"
proof -
  from assms(2) obtain s where s: "smooth_step gf sigma a = Inr s" and c: "constrain_step s = Inr c"
    by (auto simp: process_hand_pose_data_def bind_err_def split: sum.splits)
  from smooth_step_shape[OF assms(1) s] constrain_step_rows[OF _ c]
  show ?thesis
    by simp
qed

lemma col_slice_shape:
  assumes "is_ndarray a" "lo \<le> hi"
  shows "is_ndarray (col_slice a lo hi) \<and> nrows (col_slice a lo hi) = nrows a
         \<and> ncols (col_slice a lo hi) \<le> hi - lo"
  using assms by (auto simp: is_ndarray_def col_slice_def nrows_def list_all_iff)

lemma np_stack_shape:
  assumes "np_stack frames = Inr a"
  shows "is_ndarray a \<and> rows a = frames"
  using assms by (auto simp: np_stack_def is_ndarray_def split: if_splits)

subsection \<open>The sanitization\<close>

lemma nan_to_num_zero_nonfinite:
  "x = NaN \<or> isfinite x \<Longrightarrow> nan_to_num x = zero_nonfinite x"
  by (cases x) (simp_all add: nan_to_num_def zero_nonfinite_def isfinite_def)

lemma zero_nonfinite_id:
  "\<forall>x\<in>set xs. (x = NaN \<or> isfinite x) \<and> \<not> isnan x \<Longrightarrow> map zero_nonfinite xs = xs"
  by (induction xs) (auto simp: zero_nonfinite_def isnan_def)

lemma sanitize_hands_zero_nonfinite:
  assumes "\<forall>x\<in>set lhp. x = NaN \<or> isfinite x" "\<forall>x\<in>set rhp. x = NaN \<or> isfinite x"
  shows "sanitize_hands lhp rhp = (map zero_nonfinite lhp, map zero_nonfinite rhp)"
proof (cases "list_ex isnan lhp \<or> list_ex isnan rhp")
  case True
  then show ?thesis
    using assms by (simp add: sanitize_hands_def nan_to_num_zero_nonfinite)
next
  case False
  then have "\<forall>x\<in>set lhp. \<not> isnan x" "\<forall>x\<in>set rhp. \<not> isnan x"
    by (simp_all add: list_ex_iff)
  with assms have "map zero_nonfinite lhp = lhp" "map zero_nonfinite rhp = rhp"
    by (simp_all add: zero_nonfinite_id)
  with False show ?thesis
    by (simp add: sanitize_hands_def)
qed

lemma zero_nonfinite_finite: "isfinite (zero_nonfinite x)"
  by (simp add: zero_nonfinite_def isfinite_def)

subsection \<open>The frames handed to the loop\<close>

lemma prepare_frames_cases:
  assumes "prepare_frames E smplx_data = Inr frs"
  obtains frames sp lh rh where "smplx_data = FrameArray frames" "frames \<noteq> []"
    "np_stack frames = Inr sp"
    "process_hand_pose_data (gaussian_filter1d E) (3 / 10) (col_slice sp 66 111) = Inr lh"
    "process_hand_pose_data (gaussian_filter1d E) (3 / 10) (col_slice sp 111 156) = Inr rh"
    "frs = zip (rows (col_slice sp 0 3)) (zip (rows (col_slice sp 3 66)) (zip (rows lh) (rows rh)))"
  using assms
  by (cases smplx_data)
    (auto simp: prepare_frames_def bind_err_def split: if_splits sum.splits)

lemma prepare_frames_length:
  assumes "prepare_frames E (FrameArray frames) = Inr frs"
  shows "length frs = length frames \<and> frames \<noteq> []"
proof -
  from assms obtain sp lh rh where ne: "frames \<noteq> []" and sp: "np_stack frames = Inr sp"
    and lh: "process_hand_pose_data (gaussian_filter1d E) (3 / 10) (col_slice sp 66 111) = Inr lh"
    and rh: "process_hand_pose_data (gaussian_filter1d E) (3 / 10) (col_slice sp 111 156) = Inr rh"
    and frs: "frs = zip (rows (col_slice sp 0 3))
                (zip (rows (col_slice sp 3 66)) (zip (rows lh) (rows rh)))"
    by (auto elim!: prepare_frames_cases)
  from np_stack_shape[OF sp] have w: "is_ndarray sp" and r: "rows sp = frames"
    by simp_all
  have "nrows lh = nrows sp" "nrows rh = nrows sp"
    using process_nrows[OF _ lh] process_nrows[OF _ rh] col_slice_shape[OF w] by simp_all
  then show ?thesis
    using ne r by (simp add: frs nrows_def col_slice_def)
qed

lemma prepare_frames_member:
  assumes "prepare_frames E smplx_data = Inr frs" "(go, bp, lhp, rhp) \<in> set frs"
  shows "length go = 3 \<and> length lhp = 45 \<and> length rhp = 45
         \<and> (\<forall>x\<in>set lhp. x = NaN \<or> isfinite x) \<and> (\<forall>x\<in>set rhp. x = NaN \<or> isfinite x)"
proof -
  from assms(1) obtain frames sp lh rh where sp: "np_stack frames = Inr sp"
    and lh: "process_hand_pose_data (gaussian_filter1d E) (3 / 10) (col_slice sp 66 111) = Inr lh"
    and rh: "process_hand_pose_data (gaussian_filter1d E) (3 / 10) (col_slice sp 111 156) = Inr rh"
    and frs: "frs = zip (rows (col_slice sp 0 3))
                (zip (rows (col_slice sp 3 66)) (zip (rows lh) (rows rh)))"
    by (auto elim!: prepare_frames_cases)
  from np_stack_shape[OF sp] have w: "is_ndarray sp"
    by simp
  from assms(2) have g: "go \<in> set (rows (col_slice sp 0 3))"
    and l: "lhp \<in> set (rows lh)" and r: "rhp \<in> set (rows rh)"
    unfolding frs by (auto dest: set_zip_leftD set_zip_rightD)
  have wl: "is_ndarray (col_slice sp 66 111)" "ncols (col_slice sp 66 111) \<le> 45"
    and wr: "is_ndarray (col_slice sp 111 156)" "ncols (col_slice sp 111 156) \<le> 45"
    using col_slice_shape[OF w, of 66 111] col_slice_shape[OF w, of 111 156] by simp_all
  from process_rows[OF wl lh l]
  have pl: "length lhp = 45" "\<forall>x\<in>set lhp. x = NaN \<or> isfinite x"
    by simp_all
  from process_rows[OF wr rh r]
  have pr: "ncols (col_slice sp 111 156) = 45" "length rhp = 45"
    "\<forall>x\<in>set rhp. x = NaN \<or> isfinite x"
    by simp_all
  from pr(1) have d: "156 \<le> ncols sp"
    by (simp add: col_slice_def min_def split: if_splits)
  from g obtain row where "row \<in> set (rows sp)" and go: "go = take (3 - 0) (drop 0 row)"
    by (auto simp: col_slice_def)
  with w have "length row = ncols sp"
    by (simp add: is_ndarray_def list_all_iff)
  with d go have "length go = 3"
    by simp
  with pl pr show ?thesis
    by simp
qed

subsection \<open>One frame and the loop\<close>

lemma evaluate_frame_events:
  assumes "evaluate_frame E a = (evs, r)"
  shows "(evs = [ModelCall a] \<or> evs = [ModelCall a, ModelCall (neutral_hands a)])"
  using assms by (auto simp: evaluate_frame_def split: sum.splits)

lemma frame_step_events:
  assumes "frame_step E fr = (evs, r)"
  shows "length evs \<le> 2 \<and> (\<forall>ev\<in>set evs. \<exists>a. ev = ModelCall a)"
proof -
  obtain go bp l r' where fr: "fr = (go, bp, l, r')"
    by (cases fr)
  show ?thesis
  proof (cases go)
    case Nil
    with assms show ?thesis
      by (simp add: frame_step_def fr)
  next
    case (Cons g gs)
    with assms obtain a where "evaluate_frame E a = (evs, r)"
      by (auto simp: frame_step_def fr split: prod.splits)
    from evaluate_frame_events[OF this] show ?thesis
      by auto
  qed
qed

lemma frame_loop_video:
  assumes "frame_loop E save_path fps frs frames trace = (trace', Inr (Video imgs))"
  shows "length imgs = length frames + length frs
         \<and> (\<forall>fr\<in>set frs. \<exists>evs out. frame_step E fr = (evs, Inr out))"
  using assms
proof (induction frs arbitrary: frames trace)
  case Nil
  then show ?case
    by (auto split: option.splits if_splits sum.splits)
next
  case (Cons fr rest)
  from Cons.prems obtain evs out render color
    where fs: "frame_step E fr = (evs, Inr out)" and re: "renderer E = Some render"
      and co: "render out = Inr color"
      and lp: "frame_loop E save_path fps rest (frames @ [color]) (trace @ evs @ [RenderCall out])
                 = (trace', Inr (Video imgs))"
    by (auto split: prod.splits sum.splits option.splits)
  from Cons.IH[OF lp] fs show ?case
    by auto
qed

subsection \<open>The claims on the Evaluator\<close>

text \<open>
  Claim C2. For every frame the loop of \<open>render_animation\<close> receives, both hand vectors
  have 45 values; at that point (after the Constraint Engine) an entry is finite or NaN, and
  the test and replacement of lines 221 to 225 return both vectors with every non-finite
  entry replaced by zero and every other entry unchanged, so all entries are finite. The
  frame's step is then exactly the evaluation of the body model on these vectors: the
  sanitization itself raises nothing, and the request goes on.
\<close>

theorem nonfinite_hands_sanitized:
  assumes "prepare_frames E smplx_data = Inr frs" "(go, bp, lhp, rhp) \<in> set frs"
  shows "length lhp = 45 \<and> length rhp = 45
         \<and> sanitize_hands lhp rhp = (map zero_nonfinite lhp, map zero_nonfinite rhp)
         \<and> list_all isfinite (map zero_nonfinite lhp) \<and> list_all isfinite (map zero_nonfinite rhp)
         \<and> frame_step E (go, bp, lhp, rhp)
             = evaluate_frame E
                 \<lparr>body_pose = bp, right_hand_pose = map zero_nonfinite rhp,
                  left_hand_pose = map zero_nonfinite lhp,
                  global_orient = add_pi E (hd go) # tl go\<rparr>"
proof -
  from prepare_frames_member[OF assms]
  have g: "length go = 3" and l: "length lhp = 45" "length rhp = 45"
    and f: "\<forall>x\<in>set lhp. x = NaN \<or> isfinite x" "\<forall>x\<in>set rhp. x = NaN \<or> isfinite x"
    by simp_all
  have s: "sanitize_hands lhp rhp = (map zero_nonfinite lhp, map zero_nonfinite rhp)"
    by (rule sanitize_hands_zero_nonfinite[OF f])
  have z: "list_all isfinite (map zero_nonfinite lhp)" "list_all isfinite (map zero_nonfinite rhp)"
    by (simp_all add: list_all_iff zero_nonfinite_finite)
  from g obtain g0 gs where go: "go = g0 # gs"
    by (cases go) simp_all
  have "frame_step E (go, bp, lhp, rhp)
          = evaluate_frame E
              \<lparr>body_pose = bp, right_hand_pose = map zero_nonfinite rhp,
               left_hand_pose = map zero_nonfinite lhp,
               global_orient = add_pi E (hd go) # tl go\<rparr>"
    by (simp add: frame_step_def go s)
  with l s z show ?thesis
    by simp
qed

theorem nonfinite_hands_sanitized_witness:
  "sanitize_hands (replicate 45 (Fin 0)) (NaN # replicate 44 (Fin 0))
     = (map zero_nonfinite (replicate 45 (Fin 0)), map zero_nonfinite (NaN # replicate 44 (Fin 0)))
   \<and> map zero_nonfinite (NaN # replicate 44 (Fin 0)) = replicate 45 (Fin 0)
   \<and> frame_step (example_env neutral_only_model None)
        (replicate 3 (Fin 0), replicate 63 (Fin 0), replicate 45 (Fin 0), NaN # replicate 44 (Fin 0))
      = evaluate_frame (example_env neutral_only_model None)
          \<lparr>body_pose = replicate 63 (Fin 0), right_hand_pose = replicate 45 (Fin 0),
           left_hand_pose = replicate 45 (Fin 0),
           global_orient = [Fin (884279719003555 / 281474976710656), Fin 0, Fin 0]\<rparr>"
proof -
  let ?E = "example_env neutral_only_model None"
  let ?fr = "(replicate 3 (Fin 0), replicate 63 (Fin 0), replicate 45 (Fin 0),
              NaN # replicate 44 (Fin 0))"
  have p: "prepare_frames ?E (FrameArray [replicate 111 (Fin 0) @ NaN # replicate 44 (Fin 0)])
             = Inr [?fr]"
    by code_simp
  have m: "?fr \<in> set [?fr]"
    by simp
  have z: "map zero_nonfinite (NaN # replicate 44 (Fin 0)) = replicate 45 (Fin 0)"
    "map zero_nonfinite (replicate 45 (Fin 0)) = replicate 45 (Fin 0)"
    by code_simp+
  have a: "add_pi ?E (hd (replicate 3 (Fin 0))) # tl (replicate 3 (Fin 0))
             = [Fin (884279719003555 / 281474976710656), Fin 0, Fin 0]"
    by (simp add: example_env_def add_pi_exact_def numeral_3_eq_3)
  from nonfinite_hands_sanitized[OF p m] show ?thesis
    unfolding z a by simp
qed

text \<open>
  Claim C3, as amended. When the renderer is absent and the input passes the preparation,
  the sequence has at least one frame and \<open>render_animation\<close> stops at the first frame: if
  that frame's evaluation of the body model returns an output, the function returns this
  one raw model output (the output of the first frame only, not one output per frame of the
  sequence), not a video and not an error, and the log holds only the (at most two) calls of
  the body model made for the first frame, so no later frame is processed, nothing is
  rendered and nothing is saved; if that frame's evaluation raises, the error propagates
  after these calls. A video is never returned.
\<close>

theorem renderer_absent_returns_first_output:
  assumes "renderer E = None" "prepare_frames E smplx_data = Inr frs"
  shows "frs \<noteq> []
         \<and> (\<forall>evs output. frame_step E (hd frs) = (evs, Inr output) \<longrightarrow>
               render_animation E smplx_data save_path fps = (evs, Inr (ModelOutput output))
               \<and> length evs \<le> 2 \<and> (\<forall>ev\<in>set evs. \<exists>a. ev = ModelCall a))
         \<and> (\<forall>evs e. frame_step E (hd frs) = (evs, Inl e) \<longrightarrow>
               render_animation E smplx_data save_path fps = (evs, Inl e))
         \<and> (\<forall>trace imgs. render_animation E smplx_data save_path fps
                              \<noteq> (trace, Inr (Video imgs)))"
proof -
  from assms(2) obtain frames where "smplx_data = FrameArray frames"
    by (auto elim!: prepare_frames_cases)
  with prepare_frames_length assms(2) have ne: "frs \<noteq> []"
    by fastforce
  then obtain fr rest where frs: "frs = fr # rest"
    by (cases frs) simp_all
  have r: "render_animation E smplx_data save_path fps
             = (case frame_step E fr of
                  (evs, Inl e) \<Rightarrow> (evs, Inl e)
                | (evs, Inr output) \<Rightarrow> (evs, Inr (ModelOutput output)))"
    using assms by (simp add: render_animation_def frs split: prod.splits sum.splits)
  have 1: "render_animation E smplx_data save_path fps = (evs, Inr (ModelOutput out))
             \<and> length evs \<le> 2 \<and> (\<forall>ev\<in>set evs. \<exists>a. ev = ModelCall a)"
    if "frame_step E (hd frs) = (evs, Inr out)" for evs out
    using that frame_step_events[OF that] by (simp add: r frs)
  have 2: "render_animation E smplx_data save_path fps = (evs, Inl e)"
    if "frame_step E (hd frs) = (evs, Inl e)" for evs e
    using that by (simp add: r frs)
  have 3: "render_animation E smplx_data save_path fps \<noteq> (trace, Inr (Video imgs))"
    for trace imgs
    by (simp add: r split: prod.splits sum.splits)
  from ne 1 2 3 show ?thesis
    by blast
qed

theorem renderer_absent_returns_first_output_witness:
  "render_animation (example_env neutral_only_model None)
     (FrameArray [replicate 156 (Fin 0), replicate 156 (Fin 0)]) (Some ''out.mp4'') 15
   = ([ModelCall \<lparr>body_pose = replicate 63 (Fin 0), right_hand_pose = replicate 45 (Fin 0),
                  left_hand_pose = replicate 45 (Fin 0),
                  global_orient = [Fin (884279719003555 / 281474976710656), Fin 0, Fin 0]\<rparr>],
      Inr (ModelOutput [Fin (884279719003555 / 281474976710656), Fin 0, Fin 0]))"
proof -
  let ?E = "example_env neutral_only_model None"
  let ?fr = "(replicate 3 (Fin 0), replicate 63 (Fin 0), replicate 45 (Fin 0), replicate 45 (Fin 0))"
  let ?a = "\<lparr>body_pose = replicate 63 (Fin 0), right_hand_pose = replicate 45 (Fin 0),
             left_hand_pose = replicate 45 (Fin 0),
             global_orient = [Fin (884279719003555 / 281474976710656), Fin 0, Fin 0]\<rparr>"
  have r: "renderer ?E = None"
    by (simp add: example_env_def)
  have p: "prepare_frames ?E (FrameArray [replicate 156 (Fin 0), replicate 156 (Fin 0)])
             = Inr [?fr, ?fr]"
    by code_simp
  have f: "frame_step ?E (hd [?fr, ?fr])
             = ([ModelCall ?a], Inr [Fin (884279719003555 / 281474976710656), Fin 0, Fin 0])"
    by code_simp
  from renderer_absent_returns_first_output[OF r p, of "Some ''out.mp4''" 15] f show ?thesis
    by blast
qed

text \<open>
  The claim as stated (the raw per-frame model outputs for the sequence are returned) fails
  on a sequence of two frames with different orientations: the value returned is the model
  output of the first frame alone; the second frame has a model output of its own, which
  differs and is not part of the result (its evaluation is never made).
\<close>

theorem renderer_absent_counterexample:
  "render_animation (example_env neutral_only_model None)
     (FrameArray [replicate 156 (Fin 0), Fin 1 # replicate 155 (Fin 0)]) None 15
   = ([ModelCall \<lparr>body_pose = replicate 63 (Fin 0), right_hand_pose = replicate 45 (Fin 0),
                  left_hand_pose = replicate 45 (Fin 0),
                  global_orient = [Fin (884279719003555 / 281474976710656), Fin 0, Fin 0]\<rparr>],
      Inr (ModelOutput [Fin (884279719003555 / 281474976710656), Fin 0, Fin 0]))
   \<and> map_sum id (\<lambda>frs. snd (frame_step (example_env neutral_only_model None) (frs ! 1)))
       (prepare_frames (example_env neutral_only_model None)
          (FrameArray [replicate 156 (Fin 0), Fin 1 # replicate 155 (Fin 0)]))
     = Inr (Inr [Fin (1 + 884279719003555 / 281474976710656), Fin 0, Fin 0])
   \<and> [Fin (1 + 884279719003555 / 281474976710656), Fin 0, Fin 0]
       \<noteq> [Fin (884279719003555 / 281474976710656), Fin 0, Fin 0]"
proof (intro conjI)
  show "render_animation (example_env neutral_only_model None)
     (FrameArray [replicate 156 (Fin 0), Fin 1 # replicate 155 (Fin 0)]) None 15
   = ([ModelCall \<lparr>body_pose = replicate 63 (Fin 0), right_hand_pose = replicate 45 (Fin 0),
                  left_hand_pose = replicate 45 (Fin 0),
                  global_orient = [Fin (884279719003555 / 281474976710656), Fin 0, Fin 0]\<rparr>],
      Inr (ModelOutput [Fin (884279719003555 / 281474976710656), Fin 0, Fin 0]))"
    by code_simp
  show "map_sum id (\<lambda>frs. snd (frame_step (example_env neutral_only_model None) (frs ! 1)))
       (prepare_frames (example_env neutral_only_model None)
          (FrameArray [replicate 156 (Fin 0), Fin 1 # replicate 155 (Fin 0)]))
     = Inr (Inr [Fin (1 + 884279719003555 / 281474976710656), Fin 0, Fin 0])"
    by code_simp
  show "[Fin (1 + 884279719003555 / 281474976710656), Fin 0, Fin 0]
       \<noteq> [Fin (884279719003555 / 281474976710656), Fin 0, Fin 0]"
    by simp
qed

text \<open>
  Claim C7. If the body model raises on a frame's arguments, it is called once more, with
  both hands zero and the frame's orientation and body pose unchanged, and the frame's
  result is the result of that second call. If the second call raises too, the loop stops
  with that error after exactly these two calls, whatever frames remain. And whenever
  \<open>render_animation\<close> returns a video, it has one image per frame of the input and every
  frame's evaluation returned an output: no frame is skipped.
\<close>

theorem model_failure_retried_once:
  "(smplx_model E a = Inl e \<longrightarrow>
      evaluate_frame E a
        = ([ModelCall a, ModelCall (neutral_hands a)], smplx_model E (neutral_hands a))
      \<and> global_orient (neutral_hands a) = global_orient a
      \<and> body_pose (neutral_hands a) = body_pose a
      \<and> left_hand_pose (neutral_hands a) = replicate (length (left_hand_pose a)) (Fin 0)
      \<and> right_hand_pose (neutral_hands a) = replicate (length (right_hand_pose a)) (Fin 0))
   \<and> (smplx_model E a = Inl e \<and> smplx_model E (neutral_hands a) = Inl e'
        \<and> a = \<lparr>body_pose = bp, right_hand_pose = snd (sanitize_hands lhp rhp),
                left_hand_pose = fst (sanitize_hands lhp rhp),
                global_orient = add_pi E g # gs\<rparr> \<longrightarrow>
        frame_loop E save_path fps ((g # gs, bp, lhp, rhp) # rest) frames trace
          = (trace @ [ModelCall a, ModelCall (neutral_hands a)], Inl e'))
   \<and> (render_animation E smplx_data save_path fps = (trace', Inr (Video imgs)) \<longrightarrow>
        (\<exists>rows frs. smplx_data = FrameArray rows \<and> prepare_frames E smplx_data = Inr frs
            \<and> length imgs = length rows
            \<and> (\<forall>fr\<in>set frs. \<exists>evs out. frame_step E fr = (evs, Inr out))))"
proof (intro conjI impI)
  assume "smplx_model E a = Inl e"
  then show "evaluate_frame E a
        = ([ModelCall a, ModelCall (neutral_hands a)], smplx_model E (neutral_hands a))"
    by (simp add: evaluate_frame_def)
next
  show "global_orient (neutral_hands a) = global_orient a"
    "body_pose (neutral_hands a) = body_pose a"
    by (simp_all add: neutral_hands_def)
next
  show "left_hand_pose (neutral_hands a) = replicate (length (left_hand_pose a)) (Fin 0)"
    "right_hand_pose (neutral_hands a) = replicate (length (right_hand_pose a)) (Fin 0)"
    by (simp_all add: neutral_hands_def map_replicate_const)
next
  assume h: "smplx_model E a = Inl e \<and> smplx_model E (neutral_hands a) = Inl e'
        \<and> a = \<lparr>body_pose = bp, right_hand_pose = snd (sanitize_hands lhp rhp),
                left_hand_pose = fst (sanitize_hands lhp rhp),
                global_orient = add_pi E g # gs\<rparr>"
  then have m: "smplx_model E a = Inl e" "smplx_model E (neutral_hands a) = Inl e'"
    and a: "a = \<lparr>body_pose = bp, right_hand_pose = snd (sanitize_hands lhp rhp),
                left_hand_pose = fst (sanitize_hands lhp rhp),
                global_orient = add_pi E g # gs\<rparr>"
    by blast+
  from m have "evaluate_frame E a = ([ModelCall a, ModelCall (neutral_hands a)], Inl e')"
    by (simp add: evaluate_frame_def)
  moreover have "frame_step E (g # gs, bp, lhp, rhp) = evaluate_frame E a"
    unfolding a by (simp add: frame_step_def split: prod.splits)
  ultimately show "frame_loop E save_path fps ((g # gs, bp, lhp, rhp) # rest) frames trace
          = (trace @ [ModelCall a, ModelCall (neutral_hands a)], Inl e')"
    by simp
next
  assume v: "render_animation E smplx_data save_path fps = (trace', Inr (Video imgs))"
  then obtain frs where p: "prepare_frames E smplx_data = Inr frs"
    and l: "frame_loop E save_path fps frs [] [] = (trace', Inr (Video imgs))"
    by (auto simp: render_animation_def split: sum.splits)
  from p obtain rows where d: "smplx_data = FrameArray rows"
    by (auto elim!: prepare_frames_cases)
  from prepare_frames_length[OF p[unfolded d]] have n: "length frs = length rows"
    by simp
  from frame_loop_video[OF l] n d p
  show "\<exists>rows frs. smplx_data = FrameArray rows \<and> prepare_frames E smplx_data = Inr frs
            \<and> length imgs = length rows
            \<and> (\<forall>fr\<in>set frs. \<exists>evs out. frame_step E fr = (evs, Inr out))"
    by auto
qed

theorem model_failure_retried_once_witness:
  "evaluate_frame (example_env neutral_only_model None)
       \<lparr>body_pose = [Fin 1], right_hand_pose = [Fin 1], left_hand_pose = [Fin 1, Fin 2],
        global_orient = [Fin 0]\<rparr>
     = ([ModelCall \<lparr>body_pose = [Fin 1], right_hand_pose = [Fin 1],
                    left_hand_pose = [Fin 1, Fin 2], global_orient = [Fin 0]\<rparr>,
         ModelCall \<lparr>body_pose = [Fin 1], right_hand_pose = [Fin 0],
                    left_hand_pose = [Fin 0, Fin 0], global_orient = [Fin 0]\<rparr>],
        Inr [Fin 0])
   \<and> frame_loop (example_env failing_model (Some (\<lambda>out. Inr (length out)))) None 15
        [([Fin 0], [Fin 1], [Fin 2], [Fin 3]), ([Fin 0], [Fin 1], [Fin 2], [Fin 3])] [] []
     = ([ModelCall \<lparr>body_pose = [Fin 1], right_hand_pose = [Fin 3], left_hand_pose = [Fin 2],
                    global_orient = [Fin (884279719003555 / 281474976710656)]\<rparr>,
         ModelCall \<lparr>body_pose = [Fin 1], right_hand_pose = [Fin 0], left_hand_pose = [Fin 0],
                    global_orient = [Fin (884279719003555 / 281474976710656)]\<rparr>],
        Inl (External ''smplx''))
   \<and> (\<exists>rows frs. FrameArray [replicate 156 (Fin 0), replicate 156 (Fin 0)] = FrameArray rows
         \<and> prepare_frames (example_env neutral_only_model (Some (\<lambda>out. Inr (length out))))
              (FrameArray [replicate 156 (Fin 0), replicate 156 (Fin 0)]) = Inr frs
         \<and> length [3, 3 :: nat] = length rows)"
proof -
  let ?E1 = "example_env neutral_only_model None"
  let ?a1 = "\<lparr>body_pose = [Fin 1], right_hand_pose = [Fin 1], left_hand_pose = [Fin 1, Fin 2],
              global_orient = [Fin 0]\<rparr>"
  have m1: "smplx_model ?E1 ?a1 = Inl (External ''smplx'')"
    by (simp add: example_env_def neutral_only_model_def)
  have n1: "neutral_hands ?a1 = \<lparr>body_pose = [Fin 1], right_hand_pose = [Fin 0],
              left_hand_pose = [Fin 0, Fin 0], global_orient = [Fin 0]\<rparr>"
    by (simp add: neutral_hands_def)
  have r1: "smplx_model ?E1 (neutral_hands ?a1) = Inr [Fin 0]"
    unfolding n1 by (simp add: example_env_def neutral_only_model_def)
  from model_failure_retried_once[where E = ?E1 and a = ?a1 and e = "External ''smplx''",
      THEN conjunct1] m1
  have c1: "evaluate_frame ?E1 ?a1 = ([ModelCall ?a1, ModelCall (neutral_hands ?a1)], Inr [Fin 0])"
    by (simp add: r1)
  let ?E2 = "example_env failing_model (Some (\<lambda>out. Inr (length out)))"
  let ?a2 = "\<lparr>body_pose = [Fin 1], right_hand_pose = [Fin 3], left_hand_pose = [Fin 2],
              global_orient = [Fin (884279719003555 / 281474976710656)]\<rparr>"
  have m2: "smplx_model ?E2 ?a2 = Inl (External ''smplx'')"
    "smplx_model ?E2 (neutral_hands ?a2) = Inl (External ''smplx'')"
    by (simp_all add: example_env_def failing_model_def)
  have a2: "?a2 = \<lparr>body_pose = [Fin 1], right_hand_pose = snd (sanitize_hands [Fin 2] [Fin 3]),
                left_hand_pose = fst (sanitize_hands [Fin 2] [Fin 3]),
                global_orient = add_pi ?E2 (Fin 0) # []\<rparr>"
    by (simp add: sanitize_hands_def isnan_def example_env_def add_pi_exact_def)
  have n2: "neutral_hands ?a2 = \<lparr>body_pose = [Fin 1], right_hand_pose = [Fin 0],
              left_hand_pose = [Fin 0],
              global_orient = [Fin (884279719003555 / 281474976710656)]\<rparr>"
    by (simp add: neutral_hands_def)
  from model_failure_retried_once[where E = ?E2 and a = ?a2 and e = "External ''smplx''"
      and e' = "External ''smplx''" and bp = "[Fin 1]" and lhp = "[Fin 2]" and rhp = "[Fin 3]"
      and g = "Fin 0" and gs = "[]" and save_path = None and fps = 15
      and rest = "[([Fin 0], [Fin 1], [Fin 2], [Fin 3])]" and frames = "[]" and trace = "[]",
      THEN conjunct2, THEN conjunct1] m2 a2
  have c2: "frame_loop ?E2 None 15
        [([Fin 0], [Fin 1], [Fin 2], [Fin 3]), ([Fin 0], [Fin 1], [Fin 2], [Fin 3])] [] []
     = ([ModelCall ?a2, ModelCall (neutral_hands ?a2)], Inl (External ''smplx''))"
    by simp
  let ?E3 = "example_env neutral_only_model (Some (\<lambda>out. Inr (length out)))"
  let ?d = "FrameArray [replicate 156 (Fin 0), replicate 156 (Fin 0)]"
  have "snd (render_animation ?E3 ?d None 15) = Inr (Video [3, 3])"
    by code_simp
  then obtain tr where v: "render_animation ?E3 ?d None 15 = (tr, Inr (Video [3, 3]))"
    by (cases "render_animation ?E3 ?d None 15") simp
  from model_failure_retried_once[where E = ?E3 and smplx_data = ?d and save_path = None
      and fps = 15 and trace' = tr and imgs = "[3, 3]", THEN conjunct2, THEN conjunct2] v
  have c3: "\<exists>rows frs. ?d = FrameArray rows \<and> prepare_frames ?E3 ?d = Inr frs
         \<and> length [3, 3 :: nat] = length rows"
    by blast
  from c1 c2 c3 show ?thesis
    unfolding n1 n2 by blast
qed

section \<open>Verification: the transcript filter\<close>

lemma first_occurrences_snoc:
  "first_occurrences (xs @ [x]) =
     (if x \<in> set xs then first_occurrences xs else first_occurrences xs @ [x])"
  by (simp add: first_occurrences_def)

lemma set_first_occurrences: "set (first_occurrences xs) = set xs"
  by (simp add: first_occurrences_def)

lemma distinct_first_occurrences: "distinct (first_occurrences xs)"
  by (simp add: first_occurrences_def)

lemma first_occurrences_Nil: "first_occurrences [] = []"
  by (simp add: first_occurrences_def)

lemma foldl_add_word:
  "foldl (add_word gm) ws ts
     = ws @ first_occurrences (filter (\<lambda>w. w \<in> dataset_words gm \<and> w \<notin> set ws) ts)"
proof (induction ts rule: rev_induct)
  case Nil
  then show ?case by (simp add: first_occurrences_Nil)
next
  case (snoc t ts)
  let ?P = "\<lambda>w. w \<in> dataset_words gm \<and> w \<notin> set ws"
  have "foldl (add_word gm) ws (ts @ [t]) = add_word gm (ws @ first_occurrences (filter ?P ts)) t"
    by (simp add: snoc.IH)
  also have "\<dots> = ws @ first_occurrences (filter ?P (ts @ [t]))"
    by (simp add: add_word_def first_occurrences_snoc set_first_occurrences)
  finally show ?case .
qed

text \<open>The stream of cleaned tokens of a transcript, entry after entry.\<close>

lemma foldl_entries:
  "foldl (\<lambda>words e. foldl (add_word gm) words (clean_tokens e)) ws es
     = foldl (add_word gm) ws (concat (map clean_tokens es))"
  by (induction es arbitrary: ws) simp_all

lemma transcript_to_words_char:
  "transcript_to_words gm transcript
     = first_occurrences (filter (\<lambda>w. w \<in> dataset_words gm) (concat (map clean_tokens transcript)))"
proof -
  have "transcript_to_words gm transcript
          = foldl (add_word gm) [] (concat (map clean_tokens transcript))"
    unfolding transcript_to_words_def by (rule foldl_entries)
  then show ?thesis
    by (simp add: foldl_add_word)
qed

lemma lookup_word_ok:
  assumes "w \<in> dataset_words gm"
  shows "\<exists>f. lookup_word gm w = Inr f"
proof -
  from assms have "w \<in> fst ` set (word_to_pkl gm)"
    by (simp add: dataset_words_def)
  then obtain f where "map_of (word_to_pkl gm) w = Some f"
    by (metis domD dom_map_of_conv_image_fst)
  then show ?thesis
    by (simp add: lookup_word_def)
qed

text \<open>
  Claim C10. For every transcript, \<open>transcript_to_words\<close> returns the lowered,
  punctuation-stripped tokens of the transcript that are in the dataset word set, each once,
  in the order of their first occurrence: the result is duplicate-free, its words are
  exactly the cleaned tokens that the dataset knows (all others are dropped, without an
  error), and the lookup \<open>word_to_pkl[word]\<close> of the endpoint succeeds for each of them.
\<close>

theorem transcript_words_in_dataset:
  "transcript_to_words gm transcript
     = first_occurrences
         (filter (\<lambda>w. w \<in> dataset_words gm) (concat (map clean_tokens transcript)))
   \<and> distinct (transcript_to_words gm transcript)
   \<and> set (transcript_to_words gm transcript)
       = set (concat (map clean_tokens transcript)) \<inter> dataset_words gm
   \<and> (\<forall>w\<in>set (transcript_to_words gm transcript). \<exists>f. lookup_word gm w = Inr f)"
proof -
  have s: "set (transcript_to_words gm transcript)
       = set (concat (map clean_tokens transcript)) \<inter> dataset_words gm"
    unfolding transcript_to_words_char set_first_occurrences by auto
  then have "\<forall>w\<in>set (transcript_to_words gm transcript). \<exists>f. lookup_word gm w = Inr f"
    using lookup_word_ok by blast
  with s show ?thesis
    by (simp add: transcript_to_words_char distinct_first_occurrences)
qed

theorem transcript_words_in_dataset_witness:
  "transcript_to_words [(''00001.pkl'', ''Hello''), (''00002.pkl'', ''world'')]
     [\<lparr>text_of = ''A world of HELLO, world!''\<rparr>, \<lparr>text_of = ''(hello) again''\<rparr>]
     = [''world'', ''hello'']
   \<and> first_occurrences (filter (\<lambda>w. w \<in> dataset_words [(''00001.pkl'', ''Hello''), (''00002.pkl'', ''world'')])
        (concat (map clean_tokens [\<lparr>text_of = ''A world of HELLO, world!''\<rparr>, \<lparr>text_of = ''(hello) again''\<rparr>])))
     = [''world'', ''hello'']
   \<and> (\<exists>f. lookup_word [(''00001.pkl'', ''Hello''), (''00002.pkl'', ''world'')] ''hello'' = Inr f)"
proof -
  let ?gm = "[(''00001.pkl'', ''Hello''), (''00002.pkl'', ''world'')]"
  let ?t = "[\<lparr>text_of = ''A world of HELLO, world!''\<rparr>, \<lparr>text_of = ''(hello) again''\<rparr>]"
  have v: "transcript_to_words ?gm ?t = [''world'', ''hello'']"
    by code_simp
  from transcript_words_in_dataset[of ?gm ?t]
  have e: "transcript_to_words ?gm ?t
     = first_occurrences (filter (\<lambda>w. w \<in> dataset_words ?gm) (concat (map clean_tokens ?t)))"
    and l: "\<forall>w\<in>set (transcript_to_words ?gm ?t). \<exists>f. lookup_word ?gm w = Inr f"
    by blast+
  from l have "\<exists>f. lookup_word ?gm ''hello'' = Inr f"
    unfolding v by simp
  with e v show ?thesis
    by simp
qed

end
